theory Spec2Isabelle
  imports Main "HOL-Library.Word" "HOL-Library.AList"
begin

section \<open>The dispatcher (manager/dispatcher/dispatcher.go)\<close>

subsection \<open>Errors\<close>

text \<open>
  The dispatcher reports errors as gRPC status errors (\<open>grpc.Errorf(code, message)\<close>), as
  store errors, as \<open>fmt.Errorf\<close> strings and, for \<open>rand.Int63n\<close> called with a non-positive
  bound, as a run-time panic.
\<close>

datatype grpc_code = NotFound | InvalidArgument

datatype error =
    GrpcError grpc_code string
  | ErrExist
  | ErrNotExist
  | Errorf string
  | StreamError string
  | Panic string

definition ErrNodeNotRegistered :: string where
  "ErrNodeNotRegistered = ''node not registered''"

definition ErrSessionInvalid :: string where
  "ErrSessionInvalid = ''session invalid''"

definition NodeNotRegistered :: error where
  "NodeNotRegistered = GrpcError NotFound ErrNodeNotRegistered"

definition InvalidSession :: error where
  "InvalidSession = GrpcError InvalidArgument ErrSessionInvalid"

subsection \<open>Durations, the heartbeat timer and the period chooser\<close>

text \<open>\<open>time.Duration\<close> is an \<open>int64\<close> count of nanoseconds; Go's \<open>+\<close>, \<open>-\<close> and \<open>*\<close> wrap.\<close>

type_synonym duration = "64 word"

definition Millisecond :: duration where
  "Millisecond = 1000000"

definition Second :: duration where
  "Second = 1000 * Millisecond"

definition defaultHeartBeatPeriod :: duration where
  "defaultHeartBeatPeriod = 5 * Second"

definition defaultHeartBeatEpsilon :: duration where
  "defaultHeartBeatEpsilon = 500 * Millisecond"

definition defaultGracePeriodMultiplier :: "64 word" where
  "defaultGracePeriodMultiplier = 3"

text \<open>
  Modelled from the spec: package \<open>heartbeat\<close> is not among the sources. Section 4.G describes
  a deadline object: \<open>Update(ttl)\<close> stores the time to live used from the next beat on,
  \<open>Beat()\<close> re-arms the deadline to that time to live from now, and firing invokes the
  callback given to \<open>New\<close>. The record keeps the stored time to live (\<open>hb_timeout\<close>), the
  span the deadline was last armed with (\<open>hb_timer\<close>) and the node id captured by the
  callback closure of \<open>registerNode\<close> (\<open>hb_nid\<close>).
\<close>

record heartbeat =
  hb_timeout :: duration
  hb_timer :: duration
  hb_nid :: string

definition heartbeat_New :: "duration \<Rightarrow> string \<Rightarrow> heartbeat" where
  "heartbeat_New t nid = \<lparr>hb_timeout = t, hb_timer = t, hb_nid = nid\<rparr>"

definition heartbeat_Update :: "duration \<Rightarrow> heartbeat \<Rightarrow> heartbeat" where
  "heartbeat_Update ttl h = h\<lparr>hb_timeout := ttl\<rparr>"

definition heartbeat_Beat :: "heartbeat \<Rightarrow> heartbeat" where
  "heartbeat_Beat h = h\<lparr>hb_timer := hb_timeout h\<rparr>"

record periodChooser =
  pc_period :: duration
  pc_epsilon :: duration

definition newPeriodChooser :: "duration \<Rightarrow> duration \<Rightarrow> periodChooser" where
  "newPeriodChooser p eps = \<lparr>pc_period = p, pc_epsilon = eps\<rparr>"

text \<open>
  \<open>rand.Int63n(n)\<close> of the Go library panics when \<open>n <= 0\<close> and otherwise returns a value
  of \<open>[0, n)\<close>: the generator's raw non-negative draw \<open>r\<close> reduced modulo \<open>n\<close>.
\<close>

definition Int63n :: "64 word \<Rightarrow> nat \<Rightarrow> error + 64 word" where
  "Int63n n r =
     (if sint n \<le> 0 then Inl (Panic ''invalid argument to Int63n'')
      else Inr (word_of_int (int r mod sint n)))"

definition Choose :: "periodChooser \<Rightarrow> nat \<Rightarrow> error + duration" where
  "Choose pc r =
     (if 0 < sint (pc_epsilon pc) then
        (case Int63n (2 * pc_epsilon pc) r of
           Inl e \<Rightarrow> Inl e
         | Inr v \<Rightarrow> Inr (pc_period pc + (v - pc_epsilon pc)))
      else Inr (pc_period pc + 0))"

subsection \<open>Nodes, tasks and the backing store\<close>

datatype NodeStatus_State = NodeStatus_UNKNOWN | NodeStatus_READY | NodeStatus_DOWN

record NodeSpec =
  spec_ID :: string

record Node =
  node_Spec :: NodeSpec
  node_State :: NodeStatus_State

record Task =
  task_ID :: string
  task_NodeID :: string
  task_Status :: int

definition node_ID :: "Node \<Rightarrow> string" where
  "node_ID n = spec_ID (node_Spec n)"

text \<open>
  Modelled from the spec: package \<open>state\<close> (the \<open>WatchableStore\<close>, its transactions and its
  watch queue) is not among the sources. The store holds one row per node id and one row per
  task id. \<open>Create\<close> fails with \<open>ErrExist\<close> on a present id (the error \<open>Register\<close> tests for),
  \<open>Update\<close> replaces the row of a present id and fails with \<open>ErrNotExist\<close> otherwise, and
  \<open>Update(cb)\<close> on the store is one transaction: it commits what the callback did when the
  callback returns no error and leaves the store as it was when the callback fails.
\<close>

record Store =
  node_rows :: "Node list"
  task_rows :: "Task list"

definition lookup_node :: "Store \<Rightarrow> string \<Rightarrow> Node option" where
  "lookup_node s i = find (\<lambda>n. node_ID n = i) (node_rows s)"

definition lookup_task :: "Store \<Rightarrow> string \<Rightarrow> Task option" where
  "lookup_task s i = find (\<lambda>t. task_ID t = i) (task_rows s)"

definition Nodes_Create :: "Node \<Rightarrow> Store \<Rightarrow> error + Store" where
  "Nodes_Create n tx =
     (if lookup_node tx (node_ID n) \<noteq> None then Inl ErrExist
      else Inr (tx\<lparr>node_rows := node_rows tx @ [n]\<rparr>))"

definition Nodes_Update :: "Node \<Rightarrow> Store \<Rightarrow> error + Store" where
  "Nodes_Update n tx =
     (if lookup_node tx (node_ID n) = None then Inl ErrNotExist
      else Inr (tx\<lparr>node_rows := map (\<lambda>m. if node_ID m = node_ID n then n else m) (node_rows tx)\<rparr>))"

definition Tasks_Update :: "Task \<Rightarrow> Store \<Rightarrow> error + Store" where
  "Tasks_Update t tx =
     (if lookup_task tx (task_ID t) = None then Inl ErrNotExist
      else Inr (tx\<lparr>task_rows := map (\<lambda>u. if task_ID u = task_ID t then t else u) (task_rows tx)\<rparr>))"

definition Tasks_Find_ByNodeID :: "string \<Rightarrow> Store \<Rightarrow> error + Task list" where
  "Tasks_Find_ByNodeID nid tx = Inr (filter (\<lambda>t. task_NodeID t = nid) (task_rows tx))"

definition store_Update :: "(Store \<Rightarrow> error + Store) \<Rightarrow> Store \<Rightarrow> error option \<times> Store" where
  "store_Update cb s = (case cb s of Inl e \<Rightarrow> (Some e, s) | Inr s' \<Rightarrow> (None, s'))"

subsection \<open>The dispatcher's state\<close>

record registeredNode =
  rn_SessionID :: string
  rn_Heartbeat :: heartbeat
  rn_Tasks :: "string list"
  rn_Node :: Node

record Config =
  cfg_Addr :: string
  cfg_HeartbeatPeriod :: duration
  cfg_HeartbeatEpsilon :: duration
  cfg_GracePeriodMultiplier :: "64 word"

definition DefaultConfig :: Config where
  "DefaultConfig =
     \<lparr>cfg_Addr = [], cfg_HeartbeatPeriod = defaultHeartBeatPeriod,
      cfg_HeartbeatEpsilon = defaultHeartBeatEpsilon,
      cfg_GracePeriodMultiplier = defaultGracePeriodMultiplier\<rparr>"

text \<open>
  \<open>d.nodes\<close> maps a node id to a pointer to a \<open>registeredNode\<close>, and the handlers change the
  object they looked up through that pointer. The model keeps the objects in an object
  store: \<open>d_objects\<close> gives the object at an address and \<open>d_next\<close> is the next address to
  allocate (every address below it has been allocated; the others hold the zero value).
  An object that is no longer in the map stays where it is: a running stream still holds
  its address.
\<close>

definition zero_registeredNode :: registeredNode where
  "zero_registeredNode =
     \<lparr>rn_SessionID = [],
      rn_Heartbeat = \<lparr>hb_timeout = 0, hb_timer = 0, hb_nid = []\<rparr>,
      rn_Tasks = [],
      rn_Node = \<lparr>node_Spec = \<lparr>spec_ID = []\<rparr>, node_State = NodeStatus_UNKNOWN\<rparr>\<rparr>"

record Dispatcher =
  d_addr :: string
  d_nodes :: "string \<rightharpoonup> nat"
  d_objects :: "nat \<Rightarrow> registeredNode"
  d_next :: nat
  d_store :: Store
  d_gracePeriodMultiplier :: "64 word"
  d_periodChooser :: periodChooser

definition New :: "Store \<Rightarrow> Config \<Rightarrow> Dispatcher" where
  "New st c =
     \<lparr>d_addr = cfg_Addr c, d_nodes = Map.empty, d_objects = (\<lambda>a. zero_registeredNode),
      d_next = 0, d_store = st,
      d_gracePeriodMultiplier = cfg_GracePeriodMultiplier c,
      d_periodChooser = newPeriodChooser (cfg_HeartbeatPeriod c) (cfg_HeartbeatEpsilon c)\<rparr>"

text \<open>The object \<open>d.nodes[i]\<close> points to, if the node id is in the map.\<close>

definition registered :: "Dispatcher \<Rightarrow> string \<Rightarrow> registeredNode option" where
  "registered d i = map_option (d_objects d) (d_nodes d i)"

definition checkSessionID :: "registeredNode \<Rightarrow> string \<Rightarrow> error option" where
  "checkSessionID rn sessionID =
     (if rn_SessionID rn \<noteq> sessionID then Some (GrpcError InvalidArgument ErrSessionInvalid)
      else None)"

subsection \<open>Register\<close>

record RegisterRequest =
  rreq_Spec :: NodeSpec

record RegisterResponse =
  rresp_NodeID :: string
  rresp_SessionID :: string

text \<open>
  \<open>registerNode\<close> takes the two values the environment supplies: \<open>newID\<close>, the result of
  \<open>identity.NewID()\<close>, and \<open>rnd\<close>, the random draw of \<open>Choose\<close>. It allocates the new object
  and returns its address.
\<close>

definition registerNode ::
  "Dispatcher \<Rightarrow> NodeSpec \<Rightarrow> string \<Rightarrow> nat \<Rightarrow> error + (nat \<times> Dispatcher)" where
  "registerNode d spec newID rnd =
     (case Choose (d_periodChooser d) rnd of
        Inl e \<Rightarrow> Inl e
      | Inr p \<Rightarrow>
          let n = \<lparr>node_Spec = spec, node_State = NodeStatus_UNKNOWN\<rparr>;
              nid = spec_ID (node_Spec n);
              rn = \<lparr>rn_SessionID = newID,
                    rn_Heartbeat = heartbeat_New (p * d_gracePeriodMultiplier d) nid,
                    rn_Tasks = [], rn_Node = n\<rparr>;
              a = d_next d
          in Inr (a, d\<lparr>d_objects := (d_objects d)(a := rn), d_next := Suc a,
                         d_nodes := (d_nodes d)(spec_ID (node_Spec n) \<mapsto> a)\<rparr>))"

definition upsert_node :: "Node \<Rightarrow> Store \<Rightarrow> error + Store" where
  "upsert_node n tx =
     (case Nodes_Create n tx of
        Inl err \<Rightarrow> (if err \<noteq> ErrExist then Inl err else Nodes_Update n tx)
      | Inr tx' \<Rightarrow> Inr tx')"

definition Register ::
  "Dispatcher \<Rightarrow> RegisterRequest \<Rightarrow> string \<Rightarrow> nat \<Rightarrow> (error + RegisterResponse) \<times> Dispatcher" where
  "Register d r newID rnd =
     (case (case d_nodes d (spec_ID (rreq_Spec r)) of
              Some a \<Rightarrow> Inr (a, d)
            | None \<Rightarrow> registerNode d (rreq_Spec r) newID rnd) of
        Inl e \<Rightarrow> (Inl e, d)
      | Inr (a, d1) \<Rightarrow>
          let rn0 = d_objects d1 a;
              rn = rn0\<lparr>rn_Node := (rn_Node rn0)\<lparr>node_State := NodeStatus_READY\<rparr>\<rparr>;
              d2 = d1\<lparr>d_objects := (d_objects d1)(a := rn)\<rparr>
          in (case store_Update (upsert_node (rn_Node rn)) (d_store d2) of
                (Some err, s') \<Rightarrow> (Inl err, d2\<lparr>d_store := s'\<rparr>)
              | (None, s') \<Rightarrow>
                  (Inr \<lparr>rresp_NodeID = spec_ID (node_Spec (rn_Node rn)),
                        rresp_SessionID = rn_SessionID rn\<rparr>,
                   d2\<lparr>d_store := s'\<rparr>)))"

subsection \<open>UpdateTaskStatus\<close>

record TaskStatusUpdate =
  tsu_ID :: string
  tsu_Status :: int

record UpdateTaskStatusRequest =
  utsr_NodeID :: string
  utsr_SessionID :: string
  utsr_Tasks :: "TaskStatusUpdate list"

text \<open>The transaction callback: the loop over \<open>r.Tasks\<close>, returning at the first error.\<close>

fun update_tasks :: "TaskStatusUpdate list \<Rightarrow> Store \<Rightarrow> error + Store" where
  "update_tasks [] tx = Inr tx"
| "update_tasks (t # ts) tx =
     (case Tasks_Update \<lparr>task_ID = tsu_ID t, task_NodeID = [], task_Status = tsu_Status t\<rparr> tx of
        Inl err \<Rightarrow> Inl err
      | Inr tx' \<Rightarrow> update_tasks ts tx')"

definition UpdateTaskStatus ::
  "Dispatcher \<Rightarrow> UpdateTaskStatusRequest \<Rightarrow> error option \<times> Dispatcher" where
  "UpdateTaskStatus d r =
     (case d_nodes d (utsr_NodeID r) of
        None \<Rightarrow> (Some (GrpcError NotFound ErrNodeNotRegistered), d)
      | Some a \<Rightarrow>
          (case checkSessionID (d_objects d a) (utsr_SessionID r) of
             Some err \<Rightarrow> (Some err, d)
           | None \<Rightarrow>
               (case store_Update (update_tasks (utsr_Tasks r)) (d_store d) of
                  (err, s') \<Rightarrow> (err, d\<lparr>d_store := s'\<rparr>))))"

subsection \<open>nodeDown and the heartbeat callback\<close>

definition nodeDown :: "Dispatcher \<Rightarrow> string \<Rightarrow> error option \<times> Dispatcher" where
  "nodeDown d i =
     (let d1 = d\<lparr>d_nodes := (d_nodes d)(i := None)\<rparr> in
      case store_Update
             (Nodes_Update \<lparr>node_Spec = \<lparr>spec_ID = i\<rparr>, node_State = NodeStatus_DOWN\<rparr>)
             (d_store d1) of
        (Some err, s') \<Rightarrow>
          (Some (Errorf (''failed to update node '' @ i @ '' status to down'')),
           d1\<lparr>d_store := s'\<rparr>)
      | (None, s') \<Rightarrow> (None, d1\<lparr>d_store := s'\<rparr>))"

text \<open>
  The closure given to \<open>heartbeat.New\<close> in \<open>registerNode\<close>: it calls \<open>nodeDown\<close> with the node
  id it captured, logs an error and returns nothing. The result is the list of logged
  errors and the new state.
\<close>

definition heartbeat_fired :: "Dispatcher \<Rightarrow> heartbeat \<Rightarrow> error list \<times> Dispatcher" where
  "heartbeat_fired d hb =
     (case nodeDown d (hb_nid hb) of
        (Some err, d') \<Rightarrow> ([err], d')
      | (None, d') \<Rightarrow> ([], d'))"

subsection \<open>Heartbeat\<close>

record HeartbeatRequest =
  hreq_NodeID :: string
  hreq_SessionID :: string

record HeartbeatResponse =
  hresp_Period :: duration

definition Heartbeat ::
  "Dispatcher \<Rightarrow> HeartbeatRequest \<Rightarrow> nat \<Rightarrow> (error + HeartbeatResponse) \<times> Dispatcher" where
  "Heartbeat d r rnd =
     (case d_nodes d (hreq_NodeID r) of
        None \<Rightarrow> (Inl (GrpcError NotFound ErrNodeNotRegistered), d)
      | Some a \<Rightarrow>
          (case Choose (d_periodChooser d) rnd of
             Inl e \<Rightarrow> (Inl e, d)
           | Inr period \<Rightarrow>
               let grace = period * d_gracePeriodMultiplier d;
                   node = d_objects d a
               in if rn_SessionID node \<noteq> hreq_SessionID r
                  then (Inl (GrpcError InvalidArgument ErrSessionInvalid), d)
                  else (Inr \<lparr>hresp_Period = period\<rparr>,
                        d\<lparr>d_objects := (d_objects d)(a :=
                             node\<lparr>rn_Heartbeat :=
                                    heartbeat_Beat (heartbeat_Update grace (rn_Heartbeat node))\<rparr>)\<rparr>)))"

subsection \<open>Streams: what a handler reads from its environment\<close>

text \<open>
  A streaming handler looks its node up once and then runs one loop. Each pass reads the
  session id of the object it looked up (under the object's lock) and calls \<open>stream.Send\<close>.
  Other calls run between the passes: \<open>dispatcher_at env i\<close> is the dispatcher's state when
  pass \<open>i\<close> reads it, and \<open>send_at env i\<close> is what the \<open>Send\<close> of pass \<open>i\<close> returns. A handler
  that has consumed all the wake-ups (or passes) it was given is still running: its end is
  \<open>Running\<close>.
\<close>

record stream_env =
  dispatcher_at :: "nat \<Rightarrow> Dispatcher"
  send_at :: "nat \<Rightarrow> error option"

datatype stream_end = Returned "error option" | Running

subsection \<open>Tasks\<close>

datatype event =
    EventCreateTask Task
  | EventUpdateTask Task
  | EventDeleteTask Task
  | EventUpdateNode Node

text \<open>What the \<open>select\<close> of the loop wakes up on: a watched event, or the stream's context.\<close>

datatype wake = Event event | ContextDone

text \<open>
  Modelled from the spec: \<open>state.Watch\<close> and \<open>state.TaskCheckNodeID\<close> are not among the
  sources. Section 4.H: the adapter delivers the events of the bus that match one of the
  given specifiers; the three specifiers of \<open>Tasks\<close> are the task events whose task has the
  request's \<open>NodeID\<close>.
\<close>

definition TaskCheckNodeID :: "Task \<Rightarrow> Task \<Rightarrow> bool" where
  "TaskCheckNodeID t1 t2 = (task_NodeID t1 = task_NodeID t2)"

fun watch_matches :: "string \<Rightarrow> event \<Rightarrow> bool" where
  "watch_matches nid (EventCreateTask t) =
     TaskCheckNodeID \<lparr>task_ID = [], task_NodeID = nid, task_Status = 0\<rparr> t"
| "watch_matches nid (EventUpdateTask t) =
     TaskCheckNodeID \<lparr>task_ID = [], task_NodeID = nid, task_Status = 0\<rparr> t"
| "watch_matches nid (EventDeleteTask t) =
     TaskCheckNodeID \<lparr>task_ID = [], task_NodeID = nid, task_Status = 0\<rparr> t"
| "watch_matches nid (EventUpdateNode n) = False"

fun delivered :: "string \<Rightarrow> wake \<Rightarrow> bool" where
  "delivered nid (Event ev) = watch_matches nid ev"
| "delivered nid ContextDone = True"

definition Watch :: "string \<Rightarrow> wake list \<Rightarrow> wake list" where
  "Watch nid ws = filter (delivered nid) ws"

record TasksRequest =
  treq_NodeID :: string
  treq_SessionID :: string

record TasksMessage =
  tmsg_Tasks :: "Task list"

text \<open>
  \<open>tasksMap\<close> is a Go map from task id to task: an association list with one entry per
  key. Go iterates a map in no fixed order; the message built here lists the tasks in the
  association list's order, and the theorems speak of the set of its tasks only.
\<close>

type_synonym tasksMap = "(string \<times> Task) list"

fun apply_event :: "event \<Rightarrow> tasksMap \<Rightarrow> tasksMap" where
  "apply_event (EventCreateTask t) m = AList.update (task_ID t) t m"
| "apply_event (EventUpdateTask t) m = AList.update (task_ID t) t m"
| "apply_event (EventDeleteTask t) m = AList.delete (task_ID t) m"
| "apply_event (EventUpdateNode n) m = m"

definition message_of :: "tasksMap \<Rightarrow> TasksMessage" where
  "message_of m = \<lparr>tmsg_Tasks = map snd m\<rparr>"

text \<open>
  The loop of \<open>Tasks\<close>: \<open>rn\<close> is the address of the object looked up at the start, \<open>sid\<close> the
  request's session id, \<open>i\<close> the number of the pass and \<open>m\<close> the task map.
\<close>

fun tasks_loop ::
  "stream_env \<Rightarrow> nat \<Rightarrow> string \<Rightarrow> nat \<Rightarrow> tasksMap \<Rightarrow> wake list \<Rightarrow> TasksMessage list \<times> stream_end" where
  "tasks_loop env rn sid i m [] =
     (case checkSessionID (d_objects (dispatcher_at env i) rn) sid of
        Some err \<Rightarrow> ([], Returned (Some err))
      | None \<Rightarrow>
          (case send_at env i of
             Some err \<Rightarrow> ([], Returned (Some err))
           | None \<Rightarrow> ([message_of m], Running)))"
| "tasks_loop env rn sid i m (w # ws) =
     (case checkSessionID (d_objects (dispatcher_at env i) rn) sid of
        Some err \<Rightarrow> ([], Returned (Some err))
      | None \<Rightarrow>
          (case send_at env i of
             Some err \<Rightarrow> ([], Returned (Some err))
           | None \<Rightarrow>
               (case w of
                  ContextDone \<Rightarrow> ([message_of m], Returned None)
                | Event ev \<Rightarrow>
                    (case tasks_loop env rn sid (Suc i) (apply_event ev m) ws of
                       (ms, e) \<Rightarrow> (message_of m # ms, e)))))"

text \<open>
  The \<open>View\<close> callback: it fills the map from \<open>Find(ByNodeID)\<close>; when \<open>Find\<close> fails it returns
  \<open>nil\<close> and leaves the map empty.
\<close>

definition snapshot :: "string \<Rightarrow> Store \<Rightarrow> error option \<times> tasksMap" where
  "snapshot nid st =
     (case Tasks_Find_ByNodeID nid st of
        Inl err \<Rightarrow> (None, [])
      | Inr tasks \<Rightarrow> (None, fold (\<lambda>t m. AList.update (task_ID t) t m) tasks []))"

text \<open>\<open>Tasks d r env ws\<close>: the call arrives in state \<open>d\<close>; \<open>ws\<close> is what the event bus publishes.\<close>

definition Tasks ::
  "Dispatcher \<Rightarrow> TasksRequest \<Rightarrow> stream_env \<Rightarrow> wake list \<Rightarrow> TasksMessage list \<times> stream_end" where
  "Tasks d r env ws =
     (case d_nodes d (treq_NodeID r) of
        None \<Rightarrow> ([], Returned (Some (GrpcError NotFound ErrNodeNotRegistered)))
      | Some rn \<Rightarrow>
          (case checkSessionID (d_objects d rn) (treq_SessionID r) of
             Some err \<Rightarrow> ([], Returned (Some err))
           | None \<Rightarrow>
               (case snapshot (treq_NodeID r) (d_store d) of
                  (Some err, m) \<Rightarrow> ([], Returned (Some err))
                | (None, m) \<Rightarrow>
                    tasks_loop env rn (treq_SessionID r) 0 m (Watch (treq_NodeID r) ws))))"

subsection \<open>Session\<close>

record WeightedPeer =
  wp_Addr :: string
  wp_Weight :: int

record SessionMessage =
  smsg_Managers :: "WeightedPeer list"
  smsg_Disconnect :: bool

record SessionRequest =
  sreq_NodeID :: string
  sreq_SessionID :: string

definition getManagers :: "Dispatcher \<Rightarrow> WeightedPeer list" where
  "getManagers d = [\<lparr>wp_Addr = d_addr d, wp_Weight = 1\<rparr>]"

text \<open>
  The loop of \<open>Session\<close> has no exit but its two error returns; the last argument counts the
  passes observed (each ends in the five-second sleep).
\<close>

fun session_loop ::
  "stream_env \<Rightarrow> nat \<Rightarrow> string \<Rightarrow> nat \<Rightarrow> nat \<Rightarrow> SessionMessage list \<times> stream_end" where
  "session_loop env rn sid i 0 = ([], Running)"
| "session_loop env rn sid i (Suc n) =
     (if rn_SessionID (d_objects (dispatcher_at env i) rn) \<noteq> sid
      then ([], Returned (Some (GrpcError InvalidArgument ErrSessionInvalid)))
      else case send_at env i of
             Some err \<Rightarrow> ([], Returned (Some err))
           | None \<Rightarrow>
               (case session_loop env rn sid (Suc i) n of
                  (ms, e) \<Rightarrow>
                    (\<lparr>smsg_Managers = getManagers (dispatcher_at env i),
                      smsg_Disconnect = False\<rparr> # ms, e)))"

definition Session ::
  "Dispatcher \<Rightarrow> SessionRequest \<Rightarrow> stream_env \<Rightarrow> nat \<Rightarrow> SessionMessage list \<times> stream_end" where
  "Session d r env passes =
     (case d_nodes d (sreq_NodeID r) of
        None \<Rightarrow> ([], Returned (Some (GrpcError NotFound ErrNodeNotRegistered)))
      | Some rn \<Rightarrow> session_loop env rn (sreq_SessionID r) 0 passes)"

subsection \<open>The dispatcher's steps and its reachable states\<close>

text \<open>
  \<open>steps d d'\<close>: the state \<open>d'\<close> is what \<open>d\<close> has become after some of the dispatcher's calls,
  heartbeat callbacks and writes of other components to the shared store. The reachable
  states are those a dispatcher made by \<open>New\<close> can be in.
\<close>

inductive steps :: "Dispatcher \<Rightarrow> Dispatcher \<Rightarrow> bool" where
  steps_refl: "steps d d"
| steps_Register: "steps d d' \<Longrightarrow> steps d (snd (Register d' r newID rnd))"
| steps_UpdateTaskStatus: "steps d d' \<Longrightarrow> steps d (snd (UpdateTaskStatus d' u))"
| steps_Heartbeat: "steps d d' \<Longrightarrow> steps d (snd (Heartbeat d' h rnd))"
| steps_fired: "steps d d' \<Longrightarrow> steps d (snd (heartbeat_fired d' hb))"
| steps_store: "steps d d' \<Longrightarrow> steps d (d'\<lparr>d_store := st\<rparr>)"

definition reachable :: "Dispatcher \<Rightarrow> bool" where
  "reachable d = (\<exists>st c. steps (New st c) d)"

definition chooser_ok :: "periodChooser \<Rightarrow> bool" where
  "chooser_ok pc = (0 < sint (pc_epsilon pc) \<longrightarrow> 0 < sint (2 * pc_epsilon pc))"

definition node_inv :: "Dispatcher \<Rightarrow> bool" where
  "node_inv d =
     (\<forall>nid a. d_nodes d nid = Some a \<longrightarrow>
        a < d_next d \<and> chooser_ok (d_periodChooser d) \<and>
        hb_nid (rn_Heartbeat (d_objects d a)) = nid \<and>
        node_ID (rn_Node (d_objects d a)) = nid)"

text \<open>
  No call assigns \<open>SessionID\<close> of an object that exists, nor the dispatcher's address: what
  a step changes of the objects is a heartbeat timer, a node status, or a new object at a
  fresh address.
\<close>

definition frozen :: "Dispatcher \<Rightarrow> Dispatcher \<Rightarrow> bool" where
  "frozen d d' =
     (d_addr d' = d_addr d \<and> d_next d \<le> d_next d' \<and>
      (\<forall>a<d_next d. rn_SessionID (d_objects d' a) = rn_SessionID (d_objects d a)))"

subsection \<open>Task statuses and task views, as the specification describes them\<close>

text \<open>
  The status a request leaves on a task id: that of the last update in \<open>r.Tasks\<close> for the id,
  and nothing for an id the request does not mention.
\<close>

fun status_updates :: "TaskStatusUpdate list \<Rightarrow> string \<Rightarrow> int option" where
  "status_updates [] i = None"
| "status_updates (t # ts) i =
     (case status_updates ts i of
        Some s \<Rightarrow> Some s
      | None \<Rightarrow> if tsu_ID t = i then Some (tsu_Status t) else None)"

text \<open>
  The task view of one node as the specification describes it: a map from task id to task, started
  from the node's rows in the store, in which a create or update event stores the event's
  task under its id and a delete event removes the id.
\<close>

fun view_event :: "event \<Rightarrow> (string \<rightharpoonup> Task) \<Rightarrow> (string \<rightharpoonup> Task)" where
  "view_event (EventCreateTask t) v = v(task_ID t \<mapsto> t)"
| "view_event (EventUpdateTask t) v = v(task_ID t \<mapsto> t)"
| "view_event (EventDeleteTask t) v = v(task_ID t := None)"
| "view_event (EventUpdateNode n) v = v"

definition view_snapshot :: "string \<Rightarrow> Store \<Rightarrow> (string \<rightharpoonup> Task)" where
  "view_snapshot nid st =
     (\<lambda>i. case lookup_task st i of
             Some t \<Rightarrow> if task_NodeID t = nid then Some t else None
           | None \<Rightarrow> None)"

text \<open>The events among the first wake-ups of a stream.\<close>

fun wake_events :: "wake list \<Rightarrow> event list" where
  "wake_events [] = []"
| "wake_events (Event ev # ws) = ev # wake_events ws"
| "wake_events (ContextDone # ws) = wake_events ws"

subsection \<open>Example states\<close>

definition example_store :: Store where
  "example_store = \<lparr>node_rows = [], task_rows = []\<rparr>"

definition example_request :: RegisterRequest where
  "example_request = \<lparr>rreq_Spec = \<lparr>spec_ID = ''n1''\<rparr>\<rparr>"

definition example_node :: registeredNode where
  "example_node =
     \<lparr>rn_SessionID = ''s1'',
      rn_Heartbeat = \<lparr>hb_timeout = 13500000021, hb_timer = 13500000021, hb_nid = ''n1''\<rparr>,
      rn_Tasks = [],
      rn_Node = \<lparr>node_Spec = \<lparr>spec_ID = ''n1''\<rparr>, node_State = NodeStatus_READY\<rparr>\<rparr>"

definition example_dispatcher :: Dispatcher where
  "example_dispatcher = snd (Register (New example_store DefaultConfig) example_request ''s1'' 7)"

definition overflow_dispatcher :: Dispatcher where
  "overflow_dispatcher =
     snd (Register
       (New example_store \<lparr>cfg_Addr = [], cfg_HeartbeatPeriod = 9223372036854775807,
          cfg_HeartbeatEpsilon = 2, cfg_GracePeriodMultiplier = 3\<rparr>)
       example_request ''s1'' 0)"

definition example_tasks :: "Task list" where
  "example_tasks =
     [\<lparr>task_ID = ''T1'', task_NodeID = ''n1'', task_Status = 0\<rparr>,
      \<lparr>task_ID = ''T2'', task_NodeID = ''n1'', task_Status = 0\<rparr>,
      \<lparr>task_ID = ''T9'', task_NodeID = ''n2'', task_Status = 0\<rparr>]"

definition task_dispatcher :: Dispatcher where
  "task_dispatcher =
     example_dispatcher\<lparr>d_store := \<lparr>node_rows = node_rows (d_store example_dispatcher),
                                    task_rows = example_tasks\<rparr>\<rparr>"

definition example_wakes :: "wake list" where
  "example_wakes =
     [Event (EventCreateTask \<lparr>task_ID = ''T3'', task_NodeID = ''n1'', task_Status = 0\<rparr>),
      Event (EventCreateTask \<lparr>task_ID = ''T8'', task_NodeID = ''n2'', task_Status = 0\<rparr>),
      Event (EventDeleteTask \<lparr>task_ID = ''T1'', task_NodeID = ''n1'', task_Status = 0\<rparr>),
      Event (EventUpdateTask \<lparr>task_ID = ''T2'', task_NodeID = ''n1'', task_Status = 1\<rparr>)]"

text \<open>
  The node \<open>n1\<close> goes down and registers again, now with session \<open>s2\<close>, while a stream
  opened in \<open>task_dispatcher\<close> is running: the stream's first pass sees \<open>task_dispatcher\<close>,
  the later ones the state after the second registration.
\<close>

definition reregistered_node :: registeredNode where
  "reregistered_node =
     \<lparr>rn_SessionID = ''s2'',
      rn_Heartbeat = \<lparr>hb_timeout = 13500000027, hb_timer = 13500000027, hb_nid = ''n1''\<rparr>,
      rn_Tasks = [],
      rn_Node = \<lparr>node_Spec = \<lparr>spec_ID = ''n1''\<rparr>, node_State = NodeStatus_READY\<rparr>\<rparr>"

definition reregistered_dispatcher :: Dispatcher where
  "reregistered_dispatcher =
     snd (Register (snd (heartbeat_fired task_dispatcher (rn_Heartbeat example_node)))
            example_request ''s2'' 9)"

definition example_env :: stream_env where
  "example_env =
     \<lparr>dispatcher_at = (\<lambda>i. if i = 0 then task_dispatcher else reregistered_dispatcher),
      send_at = (\<lambda>i. None)\<rparr>"

section \<open>The certificate authority (ca/certificates_test.go)\<close>

text \<open>
  Of package \<open>ca\<close> only the tests are among the sources. The tests fix how the functions are
  called and what they are checked for (\<open>checkSingleCert\<close>, the error strings of
  \<open>TestValidateCertificateChain\<close>, the assertions of \<open>TestRootCACrossSignCACertificate\<close>); the
  functions themselves are modelled from sections 3, 4.B, 4.C, 6 and 7 of the specification.
\<close>

subsection \<open>Certificates and PEM data\<close>

datatype ca_error =
    Malformed | Empty | NotAChain | UnknownAuthority | NotYetValid | Expired | NoTimeOverlap
  | UnsupportedAlgorithm | KeyMismatch | NotACA | FingerprintMismatch | NoValidSigner

text \<open>A public key: its algorithm with the key size (RSA) or curve size (ECDSA), and the key.\<close>

datatype public_key = RSAKey nat nat | ECDSAKey nat nat | DSAKey nat

datatype signature_algorithm =
    ECDSAWithSHA256 | ECDSAWithSHA384 | ECDSAWithSHA512
  | SHA256WithRSA | SHA384WithRSA | SHA512WithRSA
  | SHA1WithRSA | ECDSAWithSHA1 | DSAWithSHA1 | DSAWithSHA256

record pkix_name =
  CommonName :: string
  OrganizationalUnit :: "string list"
  Organization :: "string list"
  Locality :: "string list"

text \<open>
  The fields of an \<open>x509.Certificate\<close> the tests read, the validity window (seconds) and
  the key that made the signature. \<open>RawSubject\<close> and \<open>RawSubjectPublicKeyInfo\<close> are the
  encodings of the subject and of the public key; the model keeps the encoded values.
\<close>

record Certificate =
  Subject :: pkix_name
  Issuer :: pkix_name
  RawSubjectPublicKeyInfo :: public_key
  SignedBy :: public_key
  SignatureAlgorithm :: signature_algorithm
  DNSNames :: "string list"
  IsCA :: bool
  NotBefore :: int
  NotAfter :: int

definition RawSubject :: "Certificate \<Rightarrow> pkix_name" where
  "RawSubject c = Subject c"

text \<open>What \<open>cfcsr.ParseRequest\<close> puts in a certificate request: names, hosts and the key.\<close>

record CertificateRequest =
  csr_CN :: string
  csr_Names :: "pkix_name list"
  csr_Hosts :: "string list"
  csr_PublicKey :: public_key

datatype pem_block =
    CertificatePEM Certificate
  | CertificateRequestPEM CertificateRequest
  | PrivateKeyPEM public_key
  | Undecodable

text \<open>
  \<open>helpers.ParseCertificatesPEM\<close> of the cfssl library: the certificates of the blocks in
  order, and an error when a block is not a certificate. No bytes give no certificate.
\<close>

fun ParseCertificatesPEM :: "pem_block list \<Rightarrow> ca_error + Certificate list" where
  "ParseCertificatesPEM [] = Inr []"
| "ParseCertificatesPEM (CertificatePEM c # bs) =
     (case ParseCertificatesPEM bs of Inl e \<Rightarrow> Inl e | Inr cs \<Rightarrow> Inr (c # cs))"
| "ParseCertificatesPEM (b # bs) = Inl Malformed"

subsection \<open>The test helper checkSingleCert\<close>

text \<open>
  \<open>checkSingleCert\<close> of the test file, as a predicate: true when every \<open>require\<close> of it
  passes.
\<close>

definition checkSingleCert ::
  "pem_block list \<Rightarrow> string \<Rightarrow> string \<Rightarrow> string \<Rightarrow> string \<Rightarrow> string list \<Rightarrow> bool" where
  "checkSingleCert certBytes issuerName cn ou org additionalDNSNames =
     (case ParseCertificatesPEM certBytes of
        Inl err \<Rightarrow> False
      | Inr certs \<Rightarrow>
          length certs = 1 \<and>
          issuerName = CommonName (Issuer (certs ! 0)) \<and>
          cn = CommonName (Subject (certs ! 0)) \<and>
          [ou] = OrganizationalUnit (Subject (certs ! 0)) \<and>
          [org] = Organization (Subject (certs ! 0)) \<and>
          length (DNSNames (certs ! 0)) = length additionalDNSNames + 2 \<and>
          list_all (\<lambda>dnsName. dnsName \<in> set (DNSNames (certs ! 0)))
            (additionalDNSNames @ [cn, ou]))"

subsection \<open>The root CA\<close>

record Signer =
  signer_cert :: Certificate
  signer_key :: public_key
  signer_intermediates :: "Certificate list"

record RootCA =
  Certs :: "Certificate list"
  rca_signer :: "Signer option"
  leafExpiry :: int

definition RootCAExpiration :: int where
  "RootCAExpiration = 20 * 365 * 24 * 3600"

definition DefaultNodeCertExpiration :: int where
  "DefaultNodeCertExpiration = 2160 * 3600"

text \<open>
  Modelled from the spec: \<open>CreateRootCA(commonName)\<close> generates an ECDSA P-256 self-signed
  certificate valid for the root expiration window (about 20 years) and returns a RootCA
  with signer. The generated key and the current time are arguments.
\<close>

definition CreateRootCA :: "string \<Rightarrow> nat \<Rightarrow> int \<Rightarrow> RootCA" where
  "CreateRootCA commonName k now =
     (let name = \<lparr>CommonName = commonName, OrganizationalUnit = [], Organization = [],
                   Locality = []\<rparr>;
          cert = \<lparr>Subject = name, Issuer = name, RawSubjectPublicKeyInfo = ECDSAKey 256 k,
                   SignedBy = ECDSAKey 256 k, SignatureAlgorithm = ECDSAWithSHA256,
                   DNSNames = [], IsCA = True, NotBefore = now,
                   NotAfter = now + RootCAExpiration\<rparr>
      in \<lparr>Certs = [cert],
          rca_signer = Some \<lparr>signer_cert = cert, signer_key = ECDSAKey 256 k,
                              signer_intermediates = []\<rparr>,
          leafExpiry = DefaultNodeCertExpiration\<rparr>)"

text \<open>
  Modelled from the spec: \<open>Signer()\<close> returns the signer or fails \<open>NoValidSigner\<close> (a RootCA
  may be verification-only).
\<close>

definition Signer_of :: "RootCA \<Rightarrow> ca_error + Signer" where
  "Signer_of rca = (case rca_signer rca of None \<Rightarrow> Inl NoValidSigner | Some s \<Rightarrow> Inr s)"

text \<open>
  Modelled from the spec: the signing algorithm of a key follows the key generation policy
  (ECDSA keys sign with ECDSA and SHA-256, RSA keys with RSA and SHA-256).
\<close>

fun signing_algorithm :: "public_key \<Rightarrow> signature_algorithm" where
  "signing_algorithm (RSAKey bits k) = SHA256WithRSA"
| "signing_algorithm (ECDSAKey curve k) = ECDSAWithSHA256"
| "signing_algorithm (DSAKey k) = DSAWithSHA256"

text \<open>
  Modelled from the spec: \<open>ParseValidateAndSignCSR(csr, cn, ou, org)\<close> parses the CSR,
  overwrites subject CN, OU, organization and SANs with the values supplied by the server
  (the names of the CSR are untrusted), then signs with the signer. SANs include CN, OU and
  any additional DNS names passed (the last list argument). Leaf expiry is \<open>leafExpiry\<close>.
  Of the CSR only the public key reaches the certificate.
\<close>

definition ParseValidateAndSignCSR ::
  "RootCA \<Rightarrow> pem_block list \<Rightarrow> string \<Rightarrow> string \<Rightarrow> string \<Rightarrow> string list \<Rightarrow> int
     \<Rightarrow> ca_error + pem_block list" where
  "ParseValidateAndSignCSR rca csrBytes cn ou org additionalDNSNames now =
     (case Signer_of rca of
        Inl err \<Rightarrow> Inl err
      | Inr s \<Rightarrow>
          (case csrBytes of
             [CertificateRequestPEM req] \<Rightarrow>
               Inr [CertificatePEM
                 \<lparr>Subject = \<lparr>CommonName = cn, OrganizationalUnit = [ou], Organization = [org],
                              Locality = []\<rparr>,
                  Issuer = Subject (signer_cert s),
                  RawSubjectPublicKeyInfo = csr_PublicKey req,
                  SignedBy = signer_key s,
                  SignatureAlgorithm = signing_algorithm (signer_key s),
                  DNSNames = cn # ou # additionalDNSNames,
                  IsCA = False,
                  NotBefore = now,
                  NotAfter = now + leafExpiry rca\<rparr>]
           | _ \<Rightarrow> Inl Malformed))"

text \<open>
  Modelled from the spec: \<open>CrossSignCACertificate(otherRootPEM)\<close> produces an intermediate
  whose subject and public key equal those of \<open>otherRootPEM\<close>, signed by this RootCA's
  signer, with \<open>isCA = true\<close>. It fails \<open>NotACA\<close> if the input is not a CA certificate or
  not a certificate at all. The other fields of the certificate are carried over.
\<close>

definition CrossSignCACertificate :: "RootCA \<Rightarrow> pem_block list \<Rightarrow> ca_error + pem_block list" where
  "CrossSignCACertificate rca otherRootPEM =
     (case Signer_of rca of
        Inl err \<Rightarrow> Inl err
      | Inr s \<Rightarrow>
          (case otherRootPEM of
             [CertificatePEM other] \<Rightarrow>
               if IsCA other then
                 Inr [CertificatePEM
                   (other\<lparr>Issuer := Subject (signer_cert s),
                          SignedBy := signer_key s,
                          SignatureAlgorithm := signing_algorithm (signer_key s),
                          IsCA := True\<rparr>)]
               else Inl NotACA
           | _ \<Rightarrow> Inl NotACA))"

subsection \<open>The chain validator\<close>

text \<open>
  Modelled from the spec: section 4.B, step 2. Each certificate of the bundle must be issued
  by the next one: the next one's subject is its issuer and the next one's key signed it.
\<close>

definition issued_by :: "Certificate \<Rightarrow> Certificate \<Rightarrow> bool" where
  "issued_by c parent = (Issuer c = Subject parent \<and> SignedBy c = RawSubjectPublicKeyInfo parent)"

fun forms_chain :: "Certificate list \<Rightarrow> bool" where
  "forms_chain (c # parent # cs) = (issued_by c parent \<and> forms_chain (parent # cs))"
| "forms_chain cs = True"

text \<open>
  Modelled from the spec: section 4.B, step 3, without \<open>allowExpiry\<close>: every certificate must
  currently be valid (not-before \<open><=\<close> now \<open><=\<close> not-after); the errors are those of the
  taxonomy of section 7.
\<close>

fun currently_valid :: "int \<Rightarrow> Certificate list \<Rightarrow> ca_error option" where
  "currently_valid now [] = None"
| "currently_valid now (c # cs) =
     (if now < NotBefore c then Some NotYetValid
      else if NotAfter c < now then Some Expired
      else currently_valid now cs)"

text \<open>
  Modelled from the spec: section 4.B, step 3, with \<open>allowExpiry\<close>: not-before is still
  enforced, and the effective window is the intersection of all the certificates' windows
  plus a root's window; if that intersection is empty the check fails \<open>NoTimeOverlap\<close>.
\<close>

fun not_before_enforced :: "int \<Rightarrow> Certificate list \<Rightarrow> ca_error option" where
  "not_before_enforced now [] = None"
| "not_before_enforced now (c # cs) =
     (if now < NotBefore c then Some NotYetValid else not_before_enforced now cs)"

fun latest_not_before :: "Certificate list \<Rightarrow> int" where
  "latest_not_before [] = 0"
| "latest_not_before [c] = NotBefore c"
| "latest_not_before (c # cs) = max (NotBefore c) (latest_not_before cs)"

fun earliest_not_after :: "Certificate list \<Rightarrow> int" where
  "earliest_not_after [] = 0"
| "earliest_not_after [c] = NotAfter c"
| "earliest_not_after (c # cs) = min (NotAfter c) (earliest_not_after cs)"

definition windows_overlap :: "Certificate list \<Rightarrow> bool" where
  "windows_overlap cs = (latest_not_before cs \<le> earliest_not_after cs)"

definition time_check :: "Certificate list \<Rightarrow> Certificate list \<Rightarrow> bool \<Rightarrow> int \<Rightarrow> ca_error option" where
  "time_check rootPool certs allowExpiry now =
     (if \<not> allowExpiry then currently_valid now certs
      else case not_before_enforced now certs of
             Some err \<Rightarrow> Some err
           | None \<Rightarrow>
               if list_ex (\<lambda>root. windows_overlap (root # certs)) rootPool then None
               else Some NoTimeOverlap)"

text \<open>
  Modelled from the spec: section 4.B, step 4. A chain is built from the leaf to any root of
  the pool using certificates of the bundle as intermediates: the bundle is followed upwards
  until a certificate is a root of the pool or is issued by one. The chain returned holds
  the certificates of the bundle it uses.
\<close>

fun build_chain :: "Certificate list \<Rightarrow> Certificate list \<Rightarrow> Certificate list option" where
  "build_chain rootPool [] = None"
| "build_chain rootPool (c # cs) =
     (if c \<in> set rootPool \<or> list_ex (issued_by c) rootPool then Some [c]
      else case build_chain rootPool cs of
             None \<Rightarrow> None
           | Some chain \<Rightarrow> Some (c # chain))"

text \<open>
  Modelled from the spec: the algorithm policy of section 4.C. Accepted signature
  algorithms are ECDSA and RSA with SHA-256, SHA-384 or SHA-512; DSA, SHA-1 signatures, RSA
  keys below 2048 bits and ECDSA curves below P-256 are rejected.
\<close>

fun approved_signature :: "signature_algorithm \<Rightarrow> bool" where
  "approved_signature ECDSAWithSHA256 = True"
| "approved_signature ECDSAWithSHA384 = True"
| "approved_signature ECDSAWithSHA512 = True"
| "approved_signature SHA256WithRSA = True"
| "approved_signature SHA384WithRSA = True"
| "approved_signature SHA512WithRSA = True"
| "approved_signature _ = False"

fun approved_key :: "public_key \<Rightarrow> bool" where
  "approved_key (RSAKey bits k) = (2048 \<le> bits)"
| "approved_key (ECDSAKey curve k) = (256 \<le> curve)"
| "approved_key (DSAKey k) = False"

definition approved :: "Certificate \<Rightarrow> bool" where
  "approved c = (approved_signature (SignatureAlgorithm c) \<and> approved_key (RawSubjectPublicKeyInfo c))"

text \<open>
  Modelled from the spec: \<open>ValidateCertChain(rootPool, leafBundle, allowExpiry)\<close>, steps 1 to
  5 of section 4.B in their order. The current time is an argument.
\<close>

definition ValidateCertChain ::
  "Certificate list \<Rightarrow> pem_block list \<Rightarrow> bool \<Rightarrow> int \<Rightarrow> ca_error + Certificate list" where
  "ValidateCertChain rootPool leafBundle allowExpiry now =
     (case ParseCertificatesPEM leafBundle of
        Inl err \<Rightarrow> Inl Malformed
      | Inr certs \<Rightarrow>
          if certs = [] then Inl Empty
          else if \<not> forms_chain certs then Inl NotAChain
          else case time_check rootPool certs allowExpiry now of
                 Some err \<Rightarrow> Inl err
               | None \<Rightarrow>
                   (case build_chain rootPool certs of
                      None \<Rightarrow> Inl UnknownAuthority
                    | Some chain \<Rightarrow>
                        if list_all approved certs then Inr chain
                        else Inl UnsupportedAlgorithm))"

subsection \<open>The fixtures of the tests\<close>

text \<open>
  A chain of three certificates as \<open>testutils.ECDSACertChain\<close> is used in
  \<open>TestValidateCertificateChain\<close>: a leaf issued by an intermediate issued by a root, all
  valid at \<open>test_now\<close>; \<open>ReDateCert\<close> gives a certificate another validity window.
\<close>

definition test_now :: int where
  "test_now = 1000000000"

definition OneDay :: int where
  "OneDay = 24 * 3600"

definition chain_root :: Certificate where
  "chain_root =
     \<lparr>Subject = \<lparr>CommonName = ''root'', OrganizationalUnit = [], Organization = [], Locality = []\<rparr>,
      Issuer = \<lparr>CommonName = ''root'', OrganizationalUnit = [], Organization = [], Locality = []\<rparr>,
      RawSubjectPublicKeyInfo = ECDSAKey 256 1, SignedBy = ECDSAKey 256 1,
      SignatureAlgorithm = ECDSAWithSHA256, DNSNames = [], IsCA = True,
      NotBefore = test_now - 100 * OneDay, NotAfter = test_now + 100 * OneDay\<rparr>"

definition chain_intermediate :: Certificate where
  "chain_intermediate =
     \<lparr>Subject = \<lparr>CommonName = ''intermediate'', OrganizationalUnit = [], Organization = [], Locality = []\<rparr>,
      Issuer = \<lparr>CommonName = ''root'', OrganizationalUnit = [], Organization = [], Locality = []\<rparr>,
      RawSubjectPublicKeyInfo = ECDSAKey 256 2, SignedBy = ECDSAKey 256 1,
      SignatureAlgorithm = ECDSAWithSHA256, DNSNames = [], IsCA = True,
      NotBefore = test_now - 100 * OneDay, NotAfter = test_now + 100 * OneDay\<rparr>"

definition chain_leaf :: Certificate where
  "chain_leaf =
     \<lparr>Subject = \<lparr>CommonName = ''leaf'', OrganizationalUnit = [], Organization = [], Locality = []\<rparr>,
      Issuer = \<lparr>CommonName = ''intermediate'', OrganizationalUnit = [], Organization = [], Locality = []\<rparr>,
      RawSubjectPublicKeyInfo = ECDSAKey 256 3, SignedBy = ECDSAKey 256 2,
      SignatureAlgorithm = ECDSAWithSHA256, DNSNames = [], IsCA = False,
      NotBefore = test_now - 100 * OneDay, NotAfter = test_now + 100 * OneDay\<rparr>"

definition ReDateCert :: "Certificate \<Rightarrow> int \<Rightarrow> int \<Rightarrow> Certificate" where
  "ReDateCert c notBefore notAfter = c\<lparr>NotBefore := notBefore, NotAfter := notAfter\<rparr>"

definition expiredLeaf :: Certificate where
  "expiredLeaf = ReDateCert chain_leaf (test_now - 10 * 3600) (test_now - 60)"

definition notYetValidLeaf :: Certificate where
  "notYetValidLeaf = ReDateCert chain_leaf (test_now + 3600) (test_now + 2 * 3600)"

definition weirdLeaf :: Certificate where
  "weirdLeaf = ReDateCert chain_leaf (test_now - 3 * OneDay) (test_now - 2 * OneDay)"

definition weirdIntermediate :: Certificate where
  "weirdIntermediate = ReDateCert chain_intermediate (test_now - OneDay) (test_now + OneDay)"

definition expiredIntermediate :: Certificate where
  "expiredIntermediate = ReDateCert chain_intermediate (test_now - 10 * 3600) (test_now - 60)"

definition notYetValidIntermediate :: Certificate where
  "notYetValidIntermediate = ReDateCert chain_intermediate (test_now + 3600) (test_now + 2 * 3600)"

definition unrelated_root :: Certificate where
  "unrelated_root =
     \<lparr>Subject = \<lparr>CommonName = ''other'', OrganizationalUnit = [], Organization = [], Locality = []\<rparr>,
      Issuer = \<lparr>CommonName = ''other'', OrganizationalUnit = [], Organization = [], Locality = []\<rparr>,
      RawSubjectPublicKeyInfo = ECDSAKey 256 9, SignedBy = ECDSAKey 256 9,
      SignatureAlgorithm = ECDSAWithSHA256, DNSNames = [], IsCA = True,
      NotBefore = test_now - 100 * OneDay, NotAfter = test_now + 100 * OneDay\<rparr>"

definition OneYear :: int where
  "OneYear = 365 * OneDay"

definition expiredRoot :: Certificate where
  "expiredRoot = ReDateCert chain_root (test_now - 3 * OneYear) (test_now - 2 * OneYear)"

text \<open>The request of \<open>TestParseValidateAndSignMaliciousCSR\<close>.\<close>

definition malicious_request :: CertificateRequest where
  "malicious_request =
     \<lparr>csr_CN = ''maliciousCN'',
      csr_Names = [\<lparr>CommonName = [], OrganizationalUnit = [''maliciousOU''],
                    Organization = [''maliciousOrg''], Locality = [''maliciousLocality'']\<rparr>],
      csr_Hosts = [''docker.com''],
      csr_PublicKey = ECDSAKey 256 7\<rparr>"

section \<open>Properties of the dispatcher\<close>

subsection \<open>Arithmetic of the period chooser\<close>

lemma stb63: "signed_take_bit 63 (k::int) = (k + 2 ^ 63) mod 2 ^ 64 - 2 ^ 63"
  by (simp add: signed_take_bit_eq_take_bit_shift take_bit_eq_mod)

lemma sint_double_pos:
  fixes e :: "64 word"
  assumes "0 < sint e" "0 < sint (2 * e)"
  shows "sint (2 * e) = 2 * sint e"
proof -
  have lt: "sint e < 2 ^ 63" using sint_lt [of e] by simp
  have eq: "sint (2 * e) = signed_take_bit 63 (2 * sint e)"
    by (simp add: sint_word_ariths)
  have small: "sint e < 2 ^ 62"
  proof (rule ccontr)
    assume "\<not> sint e < 2 ^ 62"
    then have ge: "2 ^ 64 \<le> 2 * sint e + 2 ^ 63" by simp
    have up: "2 * sint e + 2 ^ 63 < 2 * 2 ^ 64" using lt by simp
    have "(2 * sint e + 2 ^ 63) mod 2 ^ 64 = 2 * sint e + 2 ^ 63 - 2 ^ 64"
      using ge up by (simp add: mod_pos_geq)
    then have "sint (2 * e) = 2 * sint e - 2 ^ 64" using eq by (simp add: stb63)
    then show False using assms(2) lt by simp
  qed
  show ?thesis
    using assms small eq by (simp add: signed_take_bit_int_eq_self)
qed

lemma sint_word_of_int_small:
  "- (2 ^ 63) \<le> k \<Longrightarrow> k < 2 ^ 63 \<Longrightarrow> sint (word_of_int k :: 64 word) = k"
  by (simp add: sint_sbintrunc' signed_take_bit_int_eq_self)

lemma Choose_no_eps: "\<not> 0 < sint (pc_epsilon pc) \<Longrightarrow> Choose pc r = Inr (pc_period pc)"
  by (simp add: Choose_def)

lemma Choose_adj:
  assumes eps: "0 < sint (pc_epsilon pc)" and ok: "Choose pc r = Inr p"
  shows "\<exists>adj. - sint (pc_epsilon pc) \<le> adj \<and> adj < sint (pc_epsilon pc) \<and>
           p = pc_period pc + word_of_int adj"
proof -
  let ?e = "pc_epsilon pc"
  from ok eps have pos: "0 < sint (2 * ?e)"
    by (auto simp: Choose_def Int63n_def split: if_splits)
  have dbl: "sint (2 * ?e) = 2 * sint ?e" using eps pos by (rule sint_double_pos)
  define m where "m = int r mod (2 * sint ?e)"
  have m: "0 \<le> m" "m < 2 * sint ?e" using eps by (simp_all add: m_def)
  from ok eps pos dbl have "p = pc_period pc + (word_of_int m - ?e)"
    by (auto simp: Choose_def Int63n_def m_def split: if_splits)
  also have "word_of_int m - ?e = (word_of_int (m - sint ?e) :: 64 word)"
    by simp
  finally have "p = pc_period pc + word_of_int (m - sint ?e)" .
  with m show ?thesis by (intro exI [of _ "m - sint ?e"]) simp
qed

lemma Choose_bounds:
  assumes eps: "0 < sint (pc_epsilon pc)" and ok: "Choose pc r = Inr p"
    and lo: "- (2 ^ 63) \<le> sint (pc_period pc) - sint (pc_epsilon pc)"
    and hi: "sint (pc_period pc) + sint (pc_epsilon pc) \<le> 2 ^ 63 - 1"
  shows "sint (pc_period pc) - sint (pc_epsilon pc) \<le> sint p"
    and "sint p \<le> sint (pc_period pc) + sint (pc_epsilon pc)"
proof -
  from Choose_adj [OF eps ok] obtain adj where
    adj: "- sint (pc_epsilon pc) \<le> adj" "adj < sint (pc_epsilon pc)"
    and p: "p = pc_period pc + word_of_int adj" by blast
  have "p = word_of_int (sint (pc_period pc) + adj)" using p by simp
  then have "sint p = sint (pc_period pc) + adj"
    using adj lo hi by (simp only: sint_word_of_int_small)
  then show "sint (pc_period pc) - sint (pc_epsilon pc) \<le> sint p"
    and "sint p \<le> sint (pc_period pc) + sint (pc_epsilon pc)"
    using adj by simp_all
qed

subsection \<open>Invariants of the dispatcher's steps\<close>

lemma Choose_Inr_ok: "Choose pc r = Inr p \<Longrightarrow> chooser_ok pc"
  by (auto simp: Choose_def Int63n_def chooser_ok_def split: if_splits)

lemma chooser_ok_Choose: "chooser_ok pc \<Longrightarrow> \<exists>p. Choose pc r = Inr p"
  by (auto simp: Choose_def Int63n_def chooser_ok_def)

lemma node_inv_New: "node_inv (New st c)"
  by (simp add: node_inv_def New_def)

lemma node_inv_Register:
  assumes "node_inv d" shows "node_inv (snd (Register d r newID rnd))"
proof (cases "d_nodes d (spec_ID (rreq_Spec r))")
  case None
  show ?thesis
  proof (cases "Choose (d_periodChooser d) rnd")
    case (Inl e)
    with None assms show ?thesis by (simp add: Register_def registerNode_def)
  next
    case (Inr p)
    then have "chooser_ok (d_periodChooser d)" by (rule Choose_Inr_ok)
    with None Inr assms show ?thesis
      by (auto simp: Register_def registerNode_def store_Update_def Let_def node_inv_def
          heartbeat_New_def node_ID_def less_Suc_eq split: sum.splits)
  qed
next
  case (Some a)
  with assms show ?thesis
    by (auto simp: Register_def store_Update_def Let_def node_inv_def node_ID_def
        split: sum.splits)
qed

lemma node_inv_UpdateTaskStatus: "node_inv d \<Longrightarrow> node_inv (snd (UpdateTaskStatus d u))"
  by (auto simp: UpdateTaskStatus_def node_inv_def store_Update_def
      split: option.splits sum.splits)

lemma node_inv_Heartbeat: "node_inv d \<Longrightarrow> node_inv (snd (Heartbeat d h rnd))"
  by (auto simp: Heartbeat_def node_inv_def Let_def heartbeat_Beat_def heartbeat_Update_def
      split: option.splits sum.splits if_splits)

lemma node_inv_nodeDown: "node_inv d \<Longrightarrow> node_inv (snd (nodeDown d i))"
  by (auto simp: nodeDown_def node_inv_def Let_def store_Update_def
      split: option.splits sum.splits if_splits)

lemma snd_heartbeat_fired: "snd (heartbeat_fired d hb) = snd (nodeDown d (hb_nid hb))"
  by (simp add: heartbeat_fired_def split: prod.splits option.splits)

lemma node_inv_store: "node_inv d \<Longrightarrow> node_inv (d\<lparr>d_store := st\<rparr>)"
  by (simp add: node_inv_def)

lemma steps_node_inv: "steps d d' \<Longrightarrow> node_inv d \<Longrightarrow> node_inv d'"
proof (induction rule: steps.induct)
  case (steps_refl d)
  then show ?case .
next
  case (steps_Register d d' r newID rnd)
  then show ?case by (simp add: node_inv_Register)
next
  case (steps_UpdateTaskStatus d d' u)
  then show ?case by (simp add: node_inv_UpdateTaskStatus)
next
  case (steps_Heartbeat d d' h rnd)
  then show ?case by (simp add: node_inv_Heartbeat)
next
  case (steps_fired d d' hb)
  then show ?case by (simp add: snd_heartbeat_fired node_inv_nodeDown)
next
  case (steps_store d d' st)
  then show ?case by (simp add: node_inv_store)
qed

lemma reachable_node_inv: "reachable d \<Longrightarrow> node_inv d"
  using steps_node_inv node_inv_New by (auto simp: reachable_def)

lemma steps_trans: "steps d' d'' \<Longrightarrow> steps d d' \<Longrightarrow> steps d d''"
  by (induction rule: steps.induct) (auto intro: steps.intros)

lemma reachable_steps: "reachable d \<Longrightarrow> steps d d' \<Longrightarrow> reachable d'"
  unfolding reachable_def by (blast intro: steps_trans)

lemma frozen_refl: "frozen d d"
  by (simp add: frozen_def)

lemma frozen_trans: "frozen d d' \<Longrightarrow> frozen d' d'' \<Longrightarrow> frozen d d''"
  by (auto simp: frozen_def)

lemma frozen_Register: "frozen d (snd (Register d r newID rnd))"
  by (auto simp: frozen_def Register_def registerNode_def store_Update_def Let_def
      split: option.splits sum.splits)

lemma frozen_UpdateTaskStatus: "frozen d (snd (UpdateTaskStatus d u))"
  by (auto simp: frozen_def UpdateTaskStatus_def store_Update_def
      split: option.splits sum.splits)

lemma frozen_Heartbeat: "frozen d (snd (Heartbeat d h rnd))"
  by (auto simp: frozen_def Heartbeat_def Let_def split: option.splits sum.splits)

lemma frozen_fired: "frozen d (snd (heartbeat_fired d hb))"
  by (auto simp: frozen_def snd_heartbeat_fired nodeDown_def Let_def store_Update_def
      split: sum.splits)

lemma frozen_store: "frozen d (d\<lparr>d_store := st\<rparr>)"
  by (simp add: frozen_def)

lemma steps_frozen: "steps d d' \<Longrightarrow> frozen d d'"
proof (induction rule: steps.induct)
  case (steps_refl d)
  show ?case by (rule frozen_refl)
next
  case (steps_Register d d' r newID rnd)
  then show ?case using frozen_Register frozen_trans by blast
next
  case (steps_UpdateTaskStatus d d' u)
  then show ?case using frozen_UpdateTaskStatus frozen_trans by blast
next
  case (steps_Heartbeat d d' h rnd)
  then show ?case using frozen_Heartbeat frozen_trans by blast
next
  case (steps_fired d d' hb)
  then show ?case using frozen_fired frozen_trans by blast
next
  case (steps_store d d' st)
  then show ?case using frozen_store frozen_trans by blast
qed

lemma steps_session:
  assumes "reachable d" and "d_nodes d nid = Some a" and "steps d d'"
  shows "rn_SessionID (d_objects d' a) = rn_SessionID (d_objects d a)"
proof -
  from assms(1,2) have "a < d_next d"
    using reachable_node_inv [of d] by (auto simp: node_inv_def)
  with steps_frozen [OF assms(3)] show ?thesis by (simp add: frozen_def)
qed

subsection \<open>Register\<close>

lemma registered_None [simp]: "(registered d i = None) = (d_nodes d i = None)"
  by (simp add: registered_def)

lemma registered_Some:
  "(registered d i = Some rn) = (\<exists>a. d_nodes d i = Some a \<and> d_objects d a = rn)"
  by (auto simp: registered_def)

lemma upsert_node_ok: "\<exists>tx'. upsert_node n tx = Inr tx'"
  by (auto simp: upsert_node_def Nodes_Create_def Nodes_Update_def)

lemma store_Update_upsert: "\<exists>s'. store_Update (upsert_node n) s = (None, s')"
  using upsert_node_ok [of n s] by (auto simp: store_Update_def)

lemma Register_present:
  assumes "registered d (spec_ID (rreq_Spec r)) = Some rn"
  shows "fst (Register d r newID rnd) =
           Inr \<lparr>rresp_NodeID = spec_ID (node_Spec (rn_Node rn)), rresp_SessionID = rn_SessionID rn\<rparr>"
    and "map_option rn_SessionID (registered (snd (Register d r newID rnd)) (spec_ID (rreq_Spec r)))
           = Some (rn_SessionID rn)"
    and "d_nodes (snd (Register d r newID rnd)) = d_nodes d"
proof -
  from assms obtain a where a: "d_nodes d (spec_ID (rreq_Spec r)) = Some a" "d_objects d a = rn"
    by (auto simp: registered_Some)
  let ?n = "(rn_Node rn)\<lparr>node_State := NodeStatus_READY\<rparr>"
  obtain s' where s': "store_Update (upsert_node ?n) (d_store d) = (None, s')"
    using store_Update_upsert by blast
  from a s' show "fst (Register d r newID rnd) =
           Inr \<lparr>rresp_NodeID = spec_ID (node_Spec (rn_Node rn)), rresp_SessionID = rn_SessionID rn\<rparr>"
    by (simp add: Register_def Let_def)
  from a s' show "map_option rn_SessionID (registered (snd (Register d r newID rnd)) (spec_ID (rreq_Spec r)))
           = Some (rn_SessionID rn)"
    by (simp add: Register_def Let_def registered_def)
  from a s' show "d_nodes (snd (Register d r newID rnd)) = d_nodes d"
    by (simp add: Register_def Let_def)
qed

lemma Register_absent:
  assumes "d_nodes d (spec_ID (rreq_Spec r)) = None" and "chooser_ok (d_periodChooser d)"
  shows "fst (Register d r newID rnd) =
           Inr \<lparr>rresp_NodeID = spec_ID (rreq_Spec r), rresp_SessionID = newID\<rparr>"
    and "map_option rn_SessionID (registered (snd (Register d r newID rnd)) (spec_ID (rreq_Spec r)))
           = Some newID"
proof -
  obtain p where p: "Choose (d_periodChooser d) rnd = Inr p"
    using chooser_ok_Choose [OF assms(2)] by blast
  let ?n = "\<lparr>node_Spec = rreq_Spec r, node_State = NodeStatus_READY\<rparr>"
  obtain s' where s': "store_Update (upsert_node ?n) (d_store d) = (None, s')"
    using store_Update_upsert by blast
  from assms p s' show "fst (Register d r newID rnd) =
           Inr \<lparr>rresp_NodeID = spec_ID (rreq_Spec r), rresp_SessionID = newID\<rparr>"
    by (simp add: Register_def registerNode_def Let_def)
  from assms p s' show "map_option rn_SessionID (registered (snd (Register d r newID rnd)) (spec_ID (rreq_Spec r)))
           = Some newID"
    by (simp add: Register_def registerNode_def Let_def registered_def)
qed

lemma Register_absent_panic:
  assumes "d_nodes d (spec_ID (rreq_Spec r)) = None" and "\<not> chooser_ok (d_periodChooser d)"
  shows "Register d r newID rnd = (Inl (Panic ''invalid argument to Int63n''), d)"
  using assms by (auto simp: Register_def registerNode_def Choose_def Int63n_def chooser_ok_def)

lemma example_dispatcher_eq:
  "example_dispatcher =
     \<lparr>d_addr = [],
      d_nodes = [''n1'' \<mapsto> 0],
      d_objects = (\<lambda>a. zero_registeredNode)(0 := example_node),
      d_next = Suc 0,
      d_store = \<lparr>node_rows = [\<lparr>node_Spec = \<lparr>spec_ID = ''n1''\<rparr>, node_State = NodeStatus_READY\<rparr>],
                 task_rows = []\<rparr>,
      d_gracePeriodMultiplier = 3,
      d_periodChooser = \<lparr>pc_period = 5000000000, pc_epsilon = 500000000\<rparr>\<rparr>"
  by (simp add: example_dispatcher_def example_store_def example_request_def Register_def
      registerNode_def New_def DefaultConfig_def newPeriodChooser_def Choose_def Int63n_def
      defaultHeartBeatPeriod_def defaultHeartBeatEpsilon_def defaultGracePeriodMultiplier_def
      Second_def Millisecond_def heartbeat_New_def store_Update_def upsert_node_def
      Nodes_Create_def Nodes_Update_def lookup_node_def node_ID_def Let_def example_node_def)

lemma example_dispatcher_reachable: "reachable example_dispatcher"
  unfolding example_dispatcher_def reachable_def
  by (blast intro: steps_Register steps_refl)

lemma example_dispatcher_registered: "registered example_dispatcher ''n1'' = Some example_node"
  by (simp add: example_dispatcher_eq registered_def)

text \<open>
  Claim C1, as amended. For a node already present in the registered-node map, \<open>Register\<close>
  does not allocate a session id: it succeeds, the response carries the node's existing
  \<open>SessionID\<close>, and the map keeps pointing to the same object with that \<open>SessionID\<close>. A new
  session id (the value of \<open>identity.NewID()\<close>) is allocated only when the node id is absent
  from the map, and the response then carries that new id.
\<close>

theorem Register_keeps_session:
  "(registered d (spec_ID (rreq_Spec r)) = Some rn \<longrightarrow>
      fst (Register d r newID rnd) =
        Inr \<lparr>rresp_NodeID = spec_ID (node_Spec (rn_Node rn)), rresp_SessionID = rn_SessionID rn\<rparr> \<and>
      map_option rn_SessionID (registered (snd (Register d r newID rnd)) (spec_ID (rreq_Spec r)))
        = Some (rn_SessionID rn) \<and>
      d_nodes (snd (Register d r newID rnd)) = d_nodes d) \<and>
   (registered d (spec_ID (rreq_Spec r)) = None \<and> chooser_ok (d_periodChooser d) \<longrightarrow>
      fst (Register d r newID rnd) =
        Inr \<lparr>rresp_NodeID = spec_ID (rreq_Spec r), rresp_SessionID = newID\<rparr> \<and>
      map_option rn_SessionID (registered (snd (Register d r newID rnd)) (spec_ID (rreq_Spec r)))
        = Some newID)"
  using Register_present [of d r rn newID rnd] Register_absent [of d r newID rnd] by simp

theorem Register_keeps_session_witness:
  "registered example_dispatcher (spec_ID (rreq_Spec example_request)) = Some example_node \<and>
   fst (Register example_dispatcher example_request ''s2'' 9) =
     Inr \<lparr>rresp_NodeID = ''n1'', rresp_SessionID = ''s1''\<rparr> \<and>
   registered (New example_store DefaultConfig) (spec_ID (rreq_Spec example_request)) = None \<and>
   chooser_ok (d_periodChooser (New example_store DefaultConfig)) \<and>
   fst (Register (New example_store DefaultConfig) example_request ''s1'' 7) =
     Inr \<lparr>rresp_NodeID = ''n1'', rresp_SessionID = ''s1''\<rparr>"
proof -
  have a: "registered example_dispatcher (spec_ID (rreq_Spec example_request)) = Some example_node"
    by (simp add: example_dispatcher_registered example_request_def)
  have b: "registered (New example_store DefaultConfig) (spec_ID (rreq_Spec example_request)) = None"
    by (simp add: New_def)
  have c: "chooser_ok (d_periodChooser (New example_store DefaultConfig))"
    by (simp add: New_def DefaultConfig_def newPeriodChooser_def chooser_ok_def
        defaultHeartBeatEpsilon_def Millisecond_def)
  have "fst (Register example_dispatcher example_request ''s2'' 9) =
     Inr \<lparr>rresp_NodeID = spec_ID (node_Spec (rn_Node example_node)),
          rresp_SessionID = rn_SessionID example_node\<rparr>"
    by (rule Register_keeps_session [THEN conjunct1, THEN mp, OF a, THEN conjunct1])
  then have 1: "fst (Register example_dispatcher example_request ''s2'' 9) =
     Inr \<lparr>rresp_NodeID = ''n1'', rresp_SessionID = ''s1''\<rparr>"
    by (simp add: example_node_def)
  have "fst (Register (New example_store DefaultConfig) example_request ''s1'' 7) =
     Inr \<lparr>rresp_NodeID = spec_ID (rreq_Spec example_request), rresp_SessionID = ''s1''\<rparr>"
    by (rule Register_keeps_session [THEN conjunct2, THEN mp, OF conjI [OF b c], THEN conjunct1])
  then have 2: "fst (Register (New example_store DefaultConfig) example_request ''s1'' 7) =
     Inr \<lparr>rresp_NodeID = ''n1'', rresp_SessionID = ''s1''\<rparr>"
    by (simp add: example_request_def)
  from a b c 1 2 show ?thesis by (simp only: simp_thms)
qed

text \<open>
  Claim C1 as stated fails: the node \<open>n1\<close> is registered with session \<open>s1\<close>; a second
  \<open>Register\<close> for \<open>n1\<close>, for which \<open>identity.NewID()\<close> would give \<open>s2\<close>, answers \<open>s1\<close> and
  leaves \<open>s1\<close> in the registered node.
\<close>

theorem Register_new_session_counterexample:
  "map_option rn_SessionID (registered example_dispatcher ''n1'') = Some ''s1'' \<and>
   fst (Register example_dispatcher example_request ''s2'' 9) =
     Inr \<lparr>rresp_NodeID = ''n1'', rresp_SessionID = ''s1''\<rparr> \<and>
   map_option rn_SessionID
     (registered (snd (Register example_dispatcher example_request ''s2'' 9)) ''n1'')
     = Some ''s1''"
  by (simp add: example_dispatcher_eq example_request_def Register_def store_Update_def
      upsert_node_def Nodes_Create_def Nodes_Update_def lookup_node_def node_ID_def Let_def
      registered_def example_node_def)

subsection \<open>Heartbeat\<close>

text \<open>
  Claim C9. For every registered node of a reachable dispatcher state, a \<open>Heartbeat\<close> whose
  \<open>SessionID\<close> differs from the node's returns \<open>InvalidSession\<close> and leaves the whole
  dispatcher state, the node's heartbeat timer included, as it was.
\<close>

theorem Heartbeat_stale_session:
  assumes "reachable d" and "registered d (hreq_NodeID r) = Some rn"
    and "rn_SessionID rn \<noteq> hreq_SessionID r"
  shows "Heartbeat d r rnd = (Inl InvalidSession, d)"
proof -
  from assms(2) obtain a where a: "d_nodes d (hreq_NodeID r) = Some a" "d_objects d a = rn"
    by (auto simp: registered_Some)
  from assms(1) have "node_inv d" by (rule reachable_node_inv)
  with a(1) have "chooser_ok (d_periodChooser d)" by (auto simp: node_inv_def)
  then obtain p where "Choose (d_periodChooser d) rnd = Inr p"
    using chooser_ok_Choose by blast
  with a assms(3) show ?thesis by (simp add: Heartbeat_def InvalidSession_def Let_def)
qed

theorem Heartbeat_stale_session_witness:
  "reachable example_dispatcher \<and>
   registered example_dispatcher ''n1'' = Some example_node \<and>
   rn_SessionID example_node = ''s1'' \<and>
   Heartbeat example_dispatcher \<lparr>hreq_NodeID = ''n1'', hreq_SessionID = ''s0''\<rparr> 5
     = (Inl InvalidSession, example_dispatcher)"
proof -
  let ?r = "\<lparr>hreq_NodeID = ''n1'', hreq_SessionID = ''s0''\<rparr>"
  have a: "registered example_dispatcher (hreq_NodeID ?r) = Some example_node"
    by (simp add: example_dispatcher_registered)
  have b: "rn_SessionID example_node \<noteq> hreq_SessionID ?r" by (simp add: example_node_def)
  have s: "rn_SessionID example_node = ''s1''" by (simp add: example_node_def)
  have "Heartbeat example_dispatcher ?r 5 = (Inl InvalidSession, example_dispatcher)"
    by (rule Heartbeat_stale_session [OF example_dispatcher_reachable a b])
  with example_dispatcher_reachable example_dispatcher_registered s show ?thesis
    by (simp only: simp_thms)
qed

text \<open>
  Claim C7, as amended. When \<open>epsilon > 0\<close> and the interval \<open>[base - epsilon, base + epsilon]\<close>
  lies within the range of \<open>int64\<close>, then for every random draw the period returned by a
  successful \<open>Heartbeat\<close> lies in that interval, and the node's heartbeat timer is given the
  time to live \<open>period * gracePeriodMultiplier\<close> (in \<open>int64\<close> arithmetic) and re-armed with it.
\<close>

theorem Heartbeat_period_bounds:
  assumes eps: "0 < sint (pc_epsilon (d_periodChooser d))"
    and lo: "- (2 ^ 63) \<le> sint (pc_period (d_periodChooser d)) - sint (pc_epsilon (d_periodChooser d))"
    and hi: "sint (pc_period (d_periodChooser d)) + sint (pc_epsilon (d_periodChooser d)) \<le> 2 ^ 63 - 1"
    and ok: "Heartbeat d r rnd = (Inr resp, d')"
  shows "sint (pc_period (d_periodChooser d)) - sint (pc_epsilon (d_periodChooser d))
           \<le> sint (hresp_Period resp) \<and>
         sint (hresp_Period resp)
           \<le> sint (pc_period (d_periodChooser d)) + sint (pc_epsilon (d_periodChooser d)) \<and>
         map_option (hb_timeout \<circ> rn_Heartbeat) (registered d' (hreq_NodeID r))
           = Some (hresp_Period resp * d_gracePeriodMultiplier d) \<and>
         map_option (hb_timer \<circ> rn_Heartbeat) (registered d' (hreq_NodeID r))
           = Some (hresp_Period resp * d_gracePeriodMultiplier d)"
proof -
  from ok obtain a where a: "d_nodes d (hreq_NodeID r) = Some a"
    by (auto simp: Heartbeat_def split: option.splits)
  from ok a have ch: "Choose (d_periodChooser d) rnd = Inr (hresp_Period resp)"
    by (auto simp: Heartbeat_def Let_def split: sum.splits if_splits)
  from ok a ch have d': "d' = d\<lparr>d_objects := (d_objects d)(a :=
      (d_objects d a)\<lparr>rn_Heartbeat := heartbeat_Beat (heartbeat_Update
        (hresp_Period resp * d_gracePeriodMultiplier d) (rn_Heartbeat (d_objects d a)))\<rparr>)\<rparr>"
    by (auto simp: Heartbeat_def Let_def split: if_splits)
  have t: "map_option (hb_timeout \<circ> rn_Heartbeat) (registered d' (hreq_NodeID r))
           = Some (hresp_Period resp * d_gracePeriodMultiplier d)"
    "map_option (hb_timer \<circ> rn_Heartbeat) (registered d' (hreq_NodeID r))
           = Some (hresp_Period resp * d_gracePeriodMultiplier d)"
    using a by (simp_all add: d' heartbeat_Beat_def heartbeat_Update_def registered_def)
  from Choose_bounds [OF eps ch lo hi] t show ?thesis by simp
qed

theorem Heartbeat_period_bounds_witness:
  "0 < sint (pc_epsilon (d_periodChooser example_dispatcher)) \<and>
   fst (Heartbeat example_dispatcher \<lparr>hreq_NodeID = ''n1'', hreq_SessionID = ''s1''\<rparr> 5)
     = Inr \<lparr>hresp_Period = 4500000005\<rparr> \<and>
   (4500000000::int) \<le> sint (4500000005 :: 64 word) \<and>
   sint (4500000005 :: 64 word) \<le> (5500000000::int) \<and>
   map_option (hb_timer \<circ> rn_Heartbeat)
     (registered (snd (Heartbeat example_dispatcher \<lparr>hreq_NodeID = ''n1'', hreq_SessionID = ''s1''\<rparr> 5)) ''n1'')
     = Some (4500000005 * 3)"
proof -
  let ?r = "\<lparr>hreq_NodeID = ''n1'', hreq_SessionID = ''s1''\<rparr>"
  let ?H = "Heartbeat example_dispatcher ?r 5"
  have h: "fst ?H = Inr \<lparr>hresp_Period = 4500000005\<rparr>"
    by (simp add: example_dispatcher_eq Heartbeat_def Choose_def Int63n_def Let_def example_node_def)
  then have ok: "?H = (Inr \<lparr>hresp_Period = 4500000005\<rparr>, snd ?H)"
    by (metis prod.collapse)
  have eps: "0 < sint (pc_epsilon (d_periodChooser example_dispatcher))"
    by (simp add: example_dispatcher_eq)
  have lo: "- (2 ^ 63) \<le> sint (pc_period (d_periodChooser example_dispatcher))
      - sint (pc_epsilon (d_periodChooser example_dispatcher))"
    by (simp add: example_dispatcher_eq)
  have hi: "sint (pc_period (d_periodChooser example_dispatcher))
      + sint (pc_epsilon (d_periodChooser example_dispatcher)) \<le> 2 ^ 63 - 1"
    by (simp add: example_dispatcher_eq)
  from Heartbeat_period_bounds [OF eps lo hi ok] eps h show ?thesis
    by (simp add: example_dispatcher_eq)
qed

text \<open>
  Claim C7 as stated fails where \<open>base + adj\<close> leaves the range of \<open>int64\<close>: with a base
  period of \<open>2^63 - 1\<close> nanoseconds, \<open>epsilon = 2\<close> and the draw \<open>3\<close>, the sum wraps and the
  period returned is \<open>-2^63\<close>, below \<open>base - epsilon\<close>.
\<close>

theorem Heartbeat_period_counterexample:
  "pc_period (d_periodChooser overflow_dispatcher) = 9223372036854775807 \<and>
   pc_epsilon (d_periodChooser overflow_dispatcher) = 2 \<and>
   fst (Heartbeat overflow_dispatcher \<lparr>hreq_NodeID = ''n1'', hreq_SessionID = ''s1''\<rparr> 3)
     = Inr \<lparr>hresp_Period = 9223372036854775808\<rparr> \<and>
   sint (9223372036854775808 :: 64 word)
     < sint (9223372036854775807 :: 64 word) - sint (2 :: 64 word)"
  by (simp add: overflow_dispatcher_def example_store_def example_request_def Register_def
      registerNode_def New_def newPeriodChooser_def Choose_def Int63n_def
      heartbeat_New_def store_Update_def upsert_node_def Heartbeat_def
      Nodes_Create_def Nodes_Update_def lookup_node_def node_ID_def Let_def)

subsection \<open>The store\<close>

lemma find_replace_node:
  "find (\<lambda>m. node_ID m = j) (map (\<lambda>m. if node_ID m = node_ID n then n else m) xs) =
     (if j = node_ID n then (if find (\<lambda>m. node_ID m = j) xs = None then None else Some n)
      else find (\<lambda>m. node_ID m = j) xs)"
  by (induction xs) auto

lemma find_replace_task:
  "find (\<lambda>u. task_ID u = j) (map (\<lambda>u. if task_ID u = task_ID t then t else u) xs) =
     (if j = task_ID t then (if find (\<lambda>u. task_ID u = j) xs = None then None else Some t)
      else find (\<lambda>u. task_ID u = j) xs)"
  by (induction xs) auto

lemma Nodes_Update_present:
  assumes "lookup_node tx (node_ID n) \<noteq> None"
  shows "\<exists>tx'. Nodes_Update n tx = Inr tx' \<and> task_rows tx' = task_rows tx \<and>
           (\<forall>j. lookup_node tx' j = (if j = node_ID n then Some n else lookup_node tx j))"
  using assms by (auto simp: Nodes_Update_def lookup_node_def find_replace_node)

lemma Nodes_Update_absent:
  "lookup_node tx (node_ID n) = None \<Longrightarrow> Nodes_Update n tx = Inl ErrNotExist"
  by (simp add: Nodes_Update_def)

lemma Tasks_Update_present:
  assumes "lookup_task tx (task_ID t) \<noteq> None"
  shows "\<exists>tx'. Tasks_Update t tx = Inr tx' \<and> node_rows tx' = node_rows tx \<and>
           (\<forall>j. lookup_task tx' j = (if j = task_ID t then Some t else lookup_task tx j))"
  using assms by (auto simp: Tasks_Update_def lookup_task_def find_replace_task)

lemma nodeDown_nodes: "d_nodes (snd (nodeDown d i)) = (d_nodes d)(i := None)"
  by (auto simp: nodeDown_def Let_def store_Update_def split: sum.splits)

lemma nodeDown_present:
  assumes "lookup_node (d_store d) i \<noteq> None"
  shows "fst (nodeDown d i) = None"
    and "lookup_node (d_store (snd (nodeDown d i))) j =
           (if j = i then Some \<lparr>node_Spec = \<lparr>spec_ID = i\<rparr>, node_State = NodeStatus_DOWN\<rparr>
            else lookup_node (d_store d) j)"
proof -
  let ?n = "\<lparr>node_Spec = \<lparr>spec_ID = i\<rparr>, node_State = NodeStatus_DOWN\<rparr>"
  have i: "node_ID ?n = i" by (simp add: node_ID_def)
  from assms Nodes_Update_present [of "d_store d" ?n] obtain tx' where
    tx': "Nodes_Update ?n (d_store d) = Inr tx'"
      "\<forall>j. lookup_node tx' j = (if j = node_ID ?n then Some ?n else lookup_node (d_store d) j)"
    unfolding i by blast
  from tx'(1) show "fst (nodeDown d i) = None"
    by (simp add: nodeDown_def Let_def store_Update_def)
  from tx' show "lookup_node (d_store (snd (nodeDown d i))) j =
           (if j = i then Some ?n else lookup_node (d_store d) j)"
    by (simp add: nodeDown_def Let_def store_Update_def i)
qed

lemma nodeDown_absent:
  assumes "lookup_node (d_store d) i = None"
  shows "nodeDown d i =
           (Some (Errorf (''failed to update node '' @ i @ '' status to down'')),
            d\<lparr>d_nodes := (d_nodes d)(i := None)\<rparr>)"
proof -
  let ?n = "\<lparr>node_Spec = \<lparr>spec_ID = i\<rparr>, node_State = NodeStatus_DOWN\<rparr>"
  have "Nodes_Update ?n (d_store d) = Inl ErrNotExist"
    using assms by (intro Nodes_Update_absent) (simp add: node_ID_def)
  then show ?thesis by (simp add: nodeDown_def Let_def store_Update_def)
qed

subsection \<open>Heartbeat expiry\<close>

text \<open>
  Claim C4. When the heartbeat timer of a registered node fires, the node is deleted from the
  registered-node map (no other entry changes). If the store has a row for the node, the row
  becomes the node with status \<open>DOWN\<close>, no other row changes and nothing is logged; if the
  store update fails (there is no such row), the store is left as it was and the callback
  logs the error. The callback returns no error to anyone: its result is the log and the
  new state.
\<close>

theorem heartbeat_expiry_node_down:
  assumes "reachable d" and "registered d nid = Some rn"
  shows "d_nodes (snd (heartbeat_fired d (rn_Heartbeat rn))) = (d_nodes d)(nid := None) \<and>
         (lookup_node (d_store d) nid \<noteq> None \<longrightarrow>
            fst (heartbeat_fired d (rn_Heartbeat rn)) = [] \<and>
            (\<forall>j. lookup_node (d_store (snd (heartbeat_fired d (rn_Heartbeat rn)))) j =
               (if j = nid then Some \<lparr>node_Spec = \<lparr>spec_ID = nid\<rparr>, node_State = NodeStatus_DOWN\<rparr>
                else lookup_node (d_store d) j))) \<and>
         (lookup_node (d_store d) nid = None \<longrightarrow>
            fst (heartbeat_fired d (rn_Heartbeat rn)) =
              [Errorf (''failed to update node '' @ nid @ '' status to down'')] \<and>
            d_store (snd (heartbeat_fired d (rn_Heartbeat rn))) = d_store d)"
proof -
  from assms have nid: "hb_nid (rn_Heartbeat rn) = nid"
    using reachable_node_inv [of d] by (auto simp: node_inv_def registered_Some)
  have a: "d_nodes (snd (heartbeat_fired d (rn_Heartbeat rn))) = (d_nodes d)(nid := None)"
    by (simp add: snd_heartbeat_fired nid nodeDown_nodes)
  have b: "fst (heartbeat_fired d (rn_Heartbeat rn)) = []"
     "\<forall>j. lookup_node (d_store (snd (heartbeat_fired d (rn_Heartbeat rn)))) j =
               (if j = nid then Some \<lparr>node_Spec = \<lparr>spec_ID = nid\<rparr>, node_State = NodeStatus_DOWN\<rparr>
                else lookup_node (d_store d) j)"
    if "lookup_node (d_store d) nid \<noteq> None"
    using nodeDown_present [OF that]
    by (auto simp: heartbeat_fired_def nid split: prod.splits option.splits)
  have c: "fst (heartbeat_fired d (rn_Heartbeat rn)) =
              [Errorf (''failed to update node '' @ nid @ '' status to down'')]"
      "d_store (snd (heartbeat_fired d (rn_Heartbeat rn))) = d_store d"
    if "lookup_node (d_store d) nid = None"
    using nodeDown_absent [OF that] by (simp_all add: heartbeat_fired_def nid)
  from a b c show ?thesis by blast
qed

theorem heartbeat_expiry_node_down_witness:
  "reachable example_dispatcher \<and>
   registered example_dispatcher ''n1'' = Some example_node \<and>
   lookup_node (d_store example_dispatcher) ''n1'' \<noteq> None \<and>
   registered (snd (heartbeat_fired example_dispatcher (rn_Heartbeat example_node))) ''n1'' = None \<and>
   fst (heartbeat_fired example_dispatcher (rn_Heartbeat example_node)) = [] \<and>
   lookup_node (d_store (snd (heartbeat_fired example_dispatcher (rn_Heartbeat example_node)))) ''n1''
     = Some \<lparr>node_Spec = \<lparr>spec_ID = ''n1''\<rparr>, node_State = NodeStatus_DOWN\<rparr>"
proof -
  let ?F = "heartbeat_fired example_dispatcher (rn_Heartbeat example_node)"
  have b: "lookup_node (d_store example_dispatcher) ''n1'' \<noteq> None"
    by (simp add: example_dispatcher_eq lookup_node_def node_ID_def)
  note T = heartbeat_expiry_node_down [OF example_dispatcher_reachable example_dispatcher_registered]
  from T [THEN conjunct1] have 1: "registered (snd ?F) ''n1'' = None" by simp
  from T [THEN conjunct2, THEN conjunct1, THEN mp, OF b]
  have 2: "fst ?F = []"
    and 3: "lookup_node (d_store (snd ?F)) ''n1''
      = Some \<lparr>node_Spec = \<lparr>spec_ID = ''n1''\<rparr>, node_State = NodeStatus_DOWN\<rparr>"
    by simp_all
  from example_dispatcher_reachable example_dispatcher_registered b 1 2 3 show ?thesis
    by (simp only: simp_thms)
qed

subsection \<open>UpdateTaskStatus\<close>

lemma update_tasks_ok:
  "\<forall>t\<in>set ts. lookup_task tx (tsu_ID t) \<noteq> None \<Longrightarrow>
   \<exists>tx'. update_tasks ts tx = Inr tx' \<and> node_rows tx' = node_rows tx \<and>
     (\<forall>i. lookup_task tx' i =
        (case status_updates ts i of
           Some s \<Rightarrow> Some \<lparr>task_ID = i, task_NodeID = [], task_Status = s\<rparr>
         | None \<Rightarrow> lookup_task tx i))"
proof (induction ts arbitrary: tx)
  case Nil
  then show ?case by simp
next
  case (Cons t ts)
  let ?t = "\<lparr>task_ID = tsu_ID t, task_NodeID = [], task_Status = tsu_Status t\<rparr>"
  from Cons.prems have "lookup_task tx (task_ID ?t) \<noteq> None" by simp
  from Tasks_Update_present [OF this] obtain tx1 where
    tx1: "Tasks_Update ?t tx = Inr tx1" "node_rows tx1 = node_rows tx"
      "\<forall>j. lookup_task tx1 j = (if j = tsu_ID t then Some ?t else lookup_task tx j)"
    by auto
  from Cons.prems tx1(3) have "\<forall>u\<in>set ts. lookup_task tx1 (tsu_ID u) \<noteq> None" by simp
  from Cons.IH [OF this] obtain tx' where
    tx': "update_tasks ts tx1 = Inr tx'" "node_rows tx' = node_rows tx1"
      "\<forall>i. lookup_task tx' i =
        (case status_updates ts i of
           Some s \<Rightarrow> Some \<lparr>task_ID = i, task_NodeID = [], task_Status = s\<rparr>
         | None \<Rightarrow> lookup_task tx1 i)"
    by blast
  have "update_tasks (t # ts) tx = Inr tx'" using tx1(1) tx'(1) by simp
  moreover have "node_rows tx' = node_rows tx" using tx1(2) tx'(2) by simp
  moreover have "\<forall>i. lookup_task tx' i =
        (case status_updates (t # ts) i of
           Some s \<Rightarrow> Some \<lparr>task_ID = i, task_NodeID = [], task_Status = s\<rparr>
         | None \<Rightarrow> lookup_task tx i)"
    using tx'(3) tx1(3) by (auto split: option.splits)
  ultimately show ?case by blast
qed

lemma update_tasks_missing:
  "\<exists>t\<in>set ts. lookup_task tx (tsu_ID t) = None \<Longrightarrow> update_tasks ts tx = Inl ErrNotExist"
proof (induction ts arbitrary: tx)
  case Nil
  then show ?case by simp
next
  case (Cons t ts)
  let ?t = "\<lparr>task_ID = tsu_ID t, task_NodeID = [], task_Status = tsu_Status t\<rparr>"
  show ?case
  proof (cases "lookup_task tx (tsu_ID t) = None")
    case True
    then show ?thesis by (simp add: Tasks_Update_def)
  next
    case False
    then have "lookup_task tx (task_ID ?t) \<noteq> None" by simp
    from Tasks_Update_present [OF this] obtain tx1 where
      tx1: "Tasks_Update ?t tx = Inr tx1"
        "\<forall>j. lookup_task tx1 j = (if j = tsu_ID t then Some ?t else lookup_task tx j)"
      by auto
    from Cons.prems False obtain u where u: "u \<in> set ts" "lookup_task tx (tsu_ID u) = None"
      by auto
    with False tx1(2) have "lookup_task tx1 (tsu_ID u) = None" by auto
    with u(1) have "\<exists>t\<in>set ts. lookup_task tx1 (tsu_ID t) = None" by blast
    from Cons.IH [OF this] tx1(1) show ?thesis by simp
  qed
qed

text \<open>
  Claim C5. For an \<open>UpdateTaskStatus\<close> request whose node is registered: with a session id
  other than the node's the call fails with \<open>InvalidSession\<close> and nothing changes, the store
  included. With the node's session id the updates run in one store transaction: when every
  task id of the request has a row, the call succeeds and every task id of the request holds
  the status of its last update in the request (other rows are as before); when some task
  id has no row, the call returns the store's error and the store is as it was.
\<close>

theorem UpdateTaskStatus_transaction:
  assumes "registered d (utsr_NodeID r) = Some rn"
  shows "(rn_SessionID rn \<noteq> utsr_SessionID r \<longrightarrow>
            UpdateTaskStatus d r = (Some InvalidSession, d)) \<and>
         (rn_SessionID rn = utsr_SessionID r \<and>
          (\<forall>t\<in>set (utsr_Tasks r). lookup_task (d_store d) (tsu_ID t) \<noteq> None) \<longrightarrow>
            fst (UpdateTaskStatus d r) = None \<and>
            d_nodes (snd (UpdateTaskStatus d r)) = d_nodes d \<and>
            node_rows (d_store (snd (UpdateTaskStatus d r))) = node_rows (d_store d) \<and>
            (\<forall>i. lookup_task (d_store (snd (UpdateTaskStatus d r))) i =
               (case status_updates (utsr_Tasks r) i of
                  Some s \<Rightarrow> Some \<lparr>task_ID = i, task_NodeID = [], task_Status = s\<rparr>
                | None \<Rightarrow> lookup_task (d_store d) i))) \<and>
         (rn_SessionID rn = utsr_SessionID r \<and>
          (\<exists>t\<in>set (utsr_Tasks r). lookup_task (d_store d) (tsu_ID t) = None) \<longrightarrow>
            UpdateTaskStatus d r = (Some ErrNotExist, d))"
proof -
  from assms obtain a where reg: "d_nodes d (utsr_NodeID r) = Some a" "d_objects d a = rn"
    by (auto simp: registered_Some)
  have a: "UpdateTaskStatus d r = (Some InvalidSession, d)"
    if "rn_SessionID rn \<noteq> utsr_SessionID r"
    using that reg by (simp add: UpdateTaskStatus_def checkSessionID_def InvalidSession_def)
  have b: "fst (UpdateTaskStatus d r) = None \<and>
            d_nodes (snd (UpdateTaskStatus d r)) = d_nodes d \<and>
            node_rows (d_store (snd (UpdateTaskStatus d r))) = node_rows (d_store d) \<and>
            (\<forall>i. lookup_task (d_store (snd (UpdateTaskStatus d r))) i =
               (case status_updates (utsr_Tasks r) i of
                  Some s \<Rightarrow> Some \<lparr>task_ID = i, task_NodeID = [], task_Status = s\<rparr>
                | None \<Rightarrow> lookup_task (d_store d) i))"
    if s: "rn_SessionID rn = utsr_SessionID r"
      and p: "\<forall>t\<in>set (utsr_Tasks r). lookup_task (d_store d) (tsu_ID t) \<noteq> None"
  proof -
    from update_tasks_ok [OF p] obtain tx' where
      tx': "update_tasks (utsr_Tasks r) (d_store d) = Inr tx'" "node_rows tx' = node_rows (d_store d)"
        "\<forall>i. lookup_task tx' i =
          (case status_updates (utsr_Tasks r) i of
             Some s \<Rightarrow> Some \<lparr>task_ID = i, task_NodeID = [], task_Status = s\<rparr>
           | None \<Rightarrow> lookup_task (d_store d) i)"
      by blast
    from reg s tx'(1) have "UpdateTaskStatus d r = (None, d\<lparr>d_store := tx'\<rparr>)"
      by (simp add: UpdateTaskStatus_def checkSessionID_def store_Update_def)
    with tx'(2,3) show ?thesis by simp
  qed
  have c: "UpdateTaskStatus d r = (Some ErrNotExist, d)"
    if s: "rn_SessionID rn = utsr_SessionID r"
      and p: "\<exists>t\<in>set (utsr_Tasks r). lookup_task (d_store d) (tsu_ID t) = None"
    using update_tasks_missing [OF p] reg s
    by (simp add: UpdateTaskStatus_def checkSessionID_def store_Update_def)
  from a b c show ?thesis by blast
qed

subsection \<open>Session\<close>

lemma session_loop_messages:
  assumes "\<forall>i. d_addr (dispatcher_at env i) = A"
  shows "m \<in> set (fst (session_loop env rn sid i n)) \<Longrightarrow>
         m = \<lparr>smsg_Managers = [\<lparr>wp_Addr = A, wp_Weight = 1\<rparr>], smsg_Disconnect = False\<rparr>"
proof (induction n arbitrary: i)
  case 0
  then show ?case by simp
next
  case (Suc n)
  obtain ms e where rest: "session_loop env rn sid (Suc i) n = (ms, e)"
    by (cases "session_loop env rn sid (Suc i) n")
  from Suc.prems rest
  have "m = \<lparr>smsg_Managers = getManagers (dispatcher_at env i), smsg_Disconnect = False\<rparr> \<or> m \<in> set ms"
    by (auto split: if_splits option.splits)
  moreover have "m \<in> set ms \<Longrightarrow> ?case"
    using Suc.IH [of "Suc i"] rest by simp
  ultimately show ?case using assms by (auto simp: getManagers_def)
qed

lemma session_loop_count:
  assumes "\<forall>i. d_addr (dispatcher_at env i) = A"
    and "\<forall>i. rn_SessionID (d_objects (dispatcher_at env i) rn) = sid"
  shows "\<forall>j<n. send_at env (i + j) = None \<Longrightarrow>
         session_loop env rn sid i n =
           (replicate n \<lparr>smsg_Managers = [\<lparr>wp_Addr = A, wp_Weight = 1\<rparr>], smsg_Disconnect = False\<rparr>,
            Running)"
proof (induction n arbitrary: i)
  case 0
  then show ?case by simp
next
  case (Suc n)
  from Suc.prems have h: "send_at env i = None"
    by (metis add.right_neutral zero_less_Suc)
  from Suc.prems have "\<forall>j<n. send_at env (Suc i + j) = None"
    by (metis Suc_less_eq add_Suc_shift)
  from Suc.IH [OF this] h assms show ?case by (simp add: getManagers_def)
qed

text \<open>
  Claim C10. Every message emitted on a \<open>Session\<close> stream, whatever the dispatcher does while
  the stream runs, has \<open>Disconnect = false\<close> and lists exactly one manager: the dispatcher's
  own address with weight 1. For a registered node with the request's session id, each
  pass whose \<open>Send\<close> succeeds emits that message.
\<close>

theorem Session_messages:
  assumes run: "\<forall>i. steps d (dispatcher_at env i)"
  shows "(\<forall>m\<in>set (fst (Session d r env n)).
            m = \<lparr>smsg_Managers = [\<lparr>wp_Addr = d_addr d, wp_Weight = 1\<rparr>], smsg_Disconnect = False\<rparr>) \<and>
         (reachable d \<and> registered d (sreq_NodeID r) = Some rn \<and>
          rn_SessionID rn = sreq_SessionID r \<and> (\<forall>j<n. send_at env j = None) \<longrightarrow>
            fst (Session d r env n) =
              replicate n
                \<lparr>smsg_Managers = [\<lparr>wp_Addr = d_addr d, wp_Weight = 1\<rparr>], smsg_Disconnect = False\<rparr>)"
proof -
  from run have addr: "\<forall>i. d_addr (dispatcher_at env i) = d_addr d"
    using steps_frozen by (auto simp: frozen_def)
  have a: "m = \<lparr>smsg_Managers = [\<lparr>wp_Addr = d_addr d, wp_Weight = 1\<rparr>], smsg_Disconnect = False\<rparr>"
    if "m \<in> set (fst (Session d r env n))" for m
    using that session_loop_messages [OF addr]
    by (auto simp: Session_def split: option.splits)
  have b: "fst (Session d r env n) =
        replicate n \<lparr>smsg_Managers = [\<lparr>wp_Addr = d_addr d, wp_Weight = 1\<rparr>], smsg_Disconnect = False\<rparr>"
    if re: "reachable d" and reg: "registered d (sreq_NodeID r) = Some rn"
      and s: "rn_SessionID rn = sreq_SessionID r" and snd: "\<forall>j<n. send_at env j = None"
  proof -
    from reg obtain a where a: "d_nodes d (sreq_NodeID r) = Some a" "d_objects d a = rn"
      by (auto simp: registered_Some)
    from run s a have "\<forall>i. rn_SessionID (d_objects (dispatcher_at env i) a) = sreq_SessionID r"
      using steps_session [OF re a(1)] by simp
    from session_loop_count [OF addr this, of n 0] snd a(1) show ?thesis
      by (simp add: Session_def)
  qed
  from a b show ?thesis by blast
qed

theorem Session_messages_witness:
  "steps example_dispatcher (example_dispatcher\<lparr>d_store := example_store\<rparr>) \<and>
   reachable example_dispatcher \<and>
   registered example_dispatcher ''n1'' = Some example_node \<and>
   fst (Session example_dispatcher \<lparr>sreq_NodeID = ''n1'', sreq_SessionID = ''s1''\<rparr>
          \<lparr>dispatcher_at = (\<lambda>i. example_dispatcher\<lparr>d_store := example_store\<rparr>),
           send_at = (\<lambda>i. None)\<rparr> (Suc (Suc 0)))
     = [\<lparr>smsg_Managers = [\<lparr>wp_Addr = [], wp_Weight = 1\<rparr>], smsg_Disconnect = False\<rparr>,
        \<lparr>smsg_Managers = [\<lparr>wp_Addr = [], wp_Weight = 1\<rparr>], smsg_Disconnect = False\<rparr>]"
proof -
  let ?r = "\<lparr>sreq_NodeID = ''n1'', sreq_SessionID = ''s1''\<rparr>"
  let ?env = "\<lparr>dispatcher_at = (\<lambda>i. example_dispatcher\<lparr>d_store := example_store\<rparr>),
               send_at = (\<lambda>i. None)\<rparr>"
  have st: "steps example_dispatcher (example_dispatcher\<lparr>d_store := example_store\<rparr>)"
    by (rule steps_store [OF steps_refl])
  then have run: "\<forall>i. steps example_dispatcher (dispatcher_at ?env i)" by simp
  have a: "d_addr example_dispatcher = []" by (simp add: example_dispatcher_eq)
  have h: "reachable example_dispatcher \<and> registered example_dispatcher (sreq_NodeID ?r) = Some example_node \<and>
      rn_SessionID example_node = sreq_SessionID ?r \<and> (\<forall>j<Suc (Suc 0). send_at ?env j = None)"
    using example_dispatcher_reachable example_dispatcher_registered by (simp add: example_node_def)
  have "fst (Session example_dispatcher ?r ?env (Suc (Suc 0))) =
      replicate (Suc (Suc 0))
        \<lparr>smsg_Managers = [\<lparr>wp_Addr = d_addr example_dispatcher, wp_Weight = 1\<rparr>],
         smsg_Disconnect = False\<rparr>"
    by (rule Session_messages [OF run, THEN conjunct2, THEN mp, OF h])
  then have "fst (Session example_dispatcher ?r ?env (Suc (Suc 0))) =
     [\<lparr>smsg_Managers = [\<lparr>wp_Addr = [], wp_Weight = 1\<rparr>], smsg_Disconnect = False\<rparr>,
      \<lparr>smsg_Managers = [\<lparr>wp_Addr = [], wp_Weight = 1\<rparr>], smsg_Disconnect = False\<rparr>]"
    by (simp only: a replicate.simps)
  with st example_dispatcher_reachable example_dispatcher_registered show ?thesis
    by (simp only: simp_thms)
qed

subsection \<open>Tasks\<close>

lemma map_of_apply_event: "map_of (apply_event ev m) = view_event ev (map_of m)"
  by (cases ev) (simp_all add: AList.update_conv' AList.delete_conv')

lemma distinct_apply_event:
  "distinct (map fst m) \<Longrightarrow> distinct (map fst (apply_event ev m))"
  by (cases ev) (simp_all add: AList.distinct_update AList.distinct_delete)

lemma fold_apply_event:
  "distinct (map fst m) \<Longrightarrow>
   distinct (map fst (fold apply_event evs m)) \<and>
   map_of (fold apply_event evs m) = fold view_event evs (map_of m)"
  by (induction evs arbitrary: m) (simp_all add: map_of_apply_event distinct_apply_event)

lemma fold_update_tasks:
  "distinct (map fst m) \<Longrightarrow>
   distinct (map fst (fold (\<lambda>t m. AList.update (task_ID t) t m) ts m)) \<and>
   map_of (fold (\<lambda>t m. AList.update (task_ID t) t m) ts m) =
     fold (\<lambda>t v. v(task_ID t \<mapsto> t)) ts (map_of m)"
  by (induction ts arbitrary: m) (simp_all add: AList.update_conv' AList.distinct_update)

lemma find_None_notin: "i \<notin> task_ID ` set ts \<Longrightarrow> find (\<lambda>u. task_ID u = i) ts = None"
  by (induction ts) auto

lemma fold_upd_distinct:
  "distinct (map task_ID ts) \<Longrightarrow>
   fold (\<lambda>t v. v(task_ID t \<mapsto> t)) ts v i =
     (case find (\<lambda>t. task_ID t = i) ts of Some t \<Rightarrow> Some t | None \<Rightarrow> v i)"
proof (induction ts arbitrary: v)
  case Nil
  then show ?case by simp
next
  case (Cons t ts)
  then have "find (\<lambda>u. task_ID u = task_ID t) ts = None"
    by (intro find_None_notin) simp
  with Cons show ?case by (auto split: option.splits)
qed

lemma find_filter_distinct:
  "distinct (map task_ID ts) \<Longrightarrow>
   find (\<lambda>t. task_ID t = i) (filter Q ts) =
     (case find (\<lambda>t. task_ID t = i) ts of
        Some t \<Rightarrow> if Q t then Some t else None
      | None \<Rightarrow> None)"
proof (induction ts)
  case Nil
  then show ?case by simp
next
  case (Cons t ts)
  show ?case
  proof (cases "task_ID t = i")
    case True
    with Cons.prems have "find (\<lambda>u. task_ID u = i) ts = None"
      by (intro find_None_notin) auto
    with Cons True show ?thesis by simp
  next
    case False
    with Cons show ?thesis by simp
  qed
qed

lemma snapshot_view:
  assumes "distinct (map task_ID (task_rows st))"
  shows "fst (snapshot nid st) = None"
    and "distinct (map fst (snd (snapshot nid st)))"
    and "map_of (snd (snapshot nid st)) = view_snapshot nid st"
proof -
  let ?ts = "filter (\<lambda>t. task_NodeID t = nid) (task_rows st)"
  have s: "snapshot nid st = (None, fold (\<lambda>t m. AList.update (task_ID t) t m) ?ts [])"
    by (simp add: snapshot_def Tasks_Find_ByNodeID_def)
  show "fst (snapshot nid st) = None" by (simp add: s)
  have f: "distinct (map fst (fold (\<lambda>t m. AList.update (task_ID t) t m) ?ts [])) \<and>
     map_of (fold (\<lambda>t m. AList.update (task_ID t) t m) ?ts []) =
       fold (\<lambda>t v. v(task_ID t \<mapsto> t)) ?ts (map_of [])"
    by (rule fold_update_tasks) simp
  then show "distinct (map fst (snd (snapshot nid st)))" by (simp add: s)
  have d: "distinct (map task_ID ?ts)" using assms by (simp add: distinct_map_filter)
  have "fold (\<lambda>t v. v(task_ID t \<mapsto> t)) ?ts Map.empty i = view_snapshot nid st i" for i
    using fold_upd_distinct [OF d, of Map.empty i] find_filter_distinct [OF assms, of i]
    by (simp add: view_snapshot_def lookup_task_def split: option.splits)
  then show "map_of (snd (snapshot nid st)) = view_snapshot nid st"
    using f by (auto simp: s)
qed

lemma tasks_loop_nth:
  "k < length (fst (tasks_loop env rn sid i m ws)) \<Longrightarrow>
   fst (tasks_loop env rn sid i m ws) ! k = message_of (fold apply_event (wake_events (take k ws)) m)"
proof (induction ws arbitrary: i m k)
  case Nil
  then show ?case by (auto split: if_splits option.splits)
next
  case (Cons w ws)
  show ?case
  proof (cases w)
    case ContextDone
    with Cons.prems show ?thesis by (auto split: if_splits option.splits)
  next
    case (Event ev)
    obtain ms e where rest: "tasks_loop env rn sid (Suc i) (apply_event ev m) ws = (ms, e)"
      by (cases "tasks_loop env rn sid (Suc i) (apply_event ev m) ws")
    from Cons.prems Event rest
    have all: "fst (tasks_loop env rn sid i m (w # ws)) = message_of m # ms"
      by (auto split: if_splits option.splits)
    show ?thesis
    proof (cases k)
      case 0
      then show ?thesis by (simp add: all del: tasks_loop.simps)
    next
      case (Suc k')
      with Cons.prems all have "k' < length (fst (tasks_loop env rn sid (Suc i) (apply_event ev m) ws))"
        by (simp add: rest)
      from Cons.IH [OF this] all show ?thesis
        by (simp add: Suc rest Event del: tasks_loop.simps)
    qed
  qed
qed

text \<open>
  The check at the head of the loop does what its comment says for the object it reads: at
  the first pass that finds another session id in that object, the stream ends with
  \<open>InvalidSession\<close>.
\<close>

lemma tasks_loop_invalid:
  "\<forall>j<k. rn_SessionID (d_objects (dispatcher_at env (i + j)) rn) = sid \<and> send_at env (i + j) = None \<Longrightarrow>
   rn_SessionID (d_objects (dispatcher_at env (i + k)) rn) \<noteq> sid \<Longrightarrow>
   k \<le> length ws \<Longrightarrow> ContextDone \<notin> set (take k ws) \<Longrightarrow>
   snd (tasks_loop env rn sid i m ws) = Returned (Some InvalidSession) \<and>
   length (fst (tasks_loop env rn sid i m ws)) = k"
proof (induction k arbitrary: i m ws)
  case 0
  then show ?case by (cases ws) (simp_all add: InvalidSession_def checkSessionID_def)
next
  case (Suc k)
  from Suc.prems(3) obtain w ws' where ws: "ws = w # ws'" by (cases ws) auto
  with Suc.prems(4) obtain ev where w: "w = Event ev" by (cases w) auto
  from Suc.prems(1) have h: "rn_SessionID (d_objects (dispatcher_at env i) rn) = sid"
      "send_at env i = None"
    by (metis add.right_neutral zero_less_Suc)+
  from Suc.prems(1)
  have a: "\<forall>j<k. rn_SessionID (d_objects (dispatcher_at env (Suc i + j)) rn) = sid \<and>
                 send_at env (Suc i + j) = None"
    by (metis Suc_less_eq add_Suc_shift)
  from Suc.prems(2) have b: "rn_SessionID (d_objects (dispatcher_at env (Suc i + k)) rn) \<noteq> sid"
    by simp
  from Suc.prems(3,4) ws have c: "k \<le> length ws'" "ContextDone \<notin> set (take k ws')" by simp_all
  obtain ms e where rest: "tasks_loop env rn sid (Suc i) (apply_event ev m) ws' = (ms, e)"
    by (cases "tasks_loop env rn sid (Suc i) (apply_event ev m) ws'")
  from Suc.IH [OF a b c, of "apply_event ev m"] h rest show ?case
    by (simp add: ws w checkSessionID_def)
qed

text \<open>
  While the object keeps the request's session id and \<open>Send\<close> succeeds, every delivered event
  is followed by a message and the stream goes on.
\<close>

lemma tasks_loop_running:
  assumes "\<forall>i. rn_SessionID (d_objects (dispatcher_at env i) rn) = sid"
    and "\<forall>i. send_at env i = None"
  shows "ContextDone \<notin> set ws \<Longrightarrow>
         snd (tasks_loop env rn sid i m ws) = Running \<and>
         length (fst (tasks_loop env rn sid i m ws)) = Suc (length ws)"
proof (induction ws arbitrary: i m)
  case Nil
  with assms show ?case by (simp add: checkSessionID_def)
next
  case (Cons w ws)
  then obtain ev where w: "w = Event ev" by (cases w) auto
  obtain ms e where rest: "tasks_loop env rn sid (Suc i) (apply_event ev m) ws = (ms, e)"
    by (cases "tasks_loop env rn sid (Suc i) (apply_event ev m) ws")
  from Cons.prems have "ContextDone \<notin> set ws" by simp
  from Cons.IH [OF this, of "Suc i" "apply_event ev m"] rest assms show ?case
    by (simp add: w checkSessionID_def)
qed

lemma Tasks_loop_eq:
  assumes "d_nodes d (treq_NodeID r) = Some a"
    and "rn_SessionID (d_objects d a) = treq_SessionID r"
  shows "Tasks d r env ws =
           tasks_loop env a (treq_SessionID r) 0 (snd (snapshot (treq_NodeID r) (d_store d)))
             (Watch (treq_NodeID r) ws)"
  using assms
  by (simp add: Tasks_def checkSessionID_def snapshot_def Tasks_Find_ByNodeID_def)

text \<open>
  Claim C6. For a \<open>Tasks\<close> request of a registered node, whatever the dispatcher does while
  the stream runs: with a session id other than the node's the stream ends at once with
  \<open>InvalidSession\<close>. Otherwise the \<open>k\<close>-th message carries exactly the tasks of the node's
  task view after the first \<open>k\<close> delivered events, starting from the snapshot of the node's
  tasks in the store. But once started, the stream does not end with \<open>InvalidSession\<close>: the
  check at the head of the loop reads the object looked up at the start, whose session id
  no step of the dispatcher changes, so while \<open>Send\<close> succeeds every delivered event is
  followed by a message and the stream is still running, also after the node went down
  and registered again under another session id.
\<close>

theorem Tasks_stream:
  assumes re: "reachable d" and reg: "registered d (treq_NodeID r) = Some rn"
    and run: "\<forall>i. steps d (dispatcher_at env i)"
  shows "(rn_SessionID rn \<noteq> treq_SessionID r \<longrightarrow>
            Tasks d r env ws = ([], Returned (Some InvalidSession))) \<and>
         (rn_SessionID rn = treq_SessionID r \<and> distinct (map task_ID (task_rows (d_store d))) \<longrightarrow>
            (\<forall>k<length (fst (Tasks d r env ws)).
               set (tmsg_Tasks (fst (Tasks d r env ws) ! k)) =
                 ran (fold view_event (wake_events (take k (Watch (treq_NodeID r) ws)))
                        (view_snapshot (treq_NodeID r) (d_store d))))) \<and>
         (rn_SessionID rn = treq_SessionID r \<and> (\<forall>i. send_at env i = None) \<and>
          ContextDone \<notin> set (Watch (treq_NodeID r) ws) \<longrightarrow>
            snd (Tasks d r env ws) = Running \<and>
            length (fst (Tasks d r env ws)) = Suc (length (Watch (treq_NodeID r) ws)))"
proof -
  let ?nid = "treq_NodeID r" and ?sid = "treq_SessionID r"
  let ?m = "snd (snapshot ?nid (d_store d))"
  from reg obtain a where a: "d_nodes d ?nid = Some a" "d_objects d a = rn"
    by (auto simp: registered_Some)
  have c1: "Tasks d r env ws = ([], Returned (Some InvalidSession))"
    if "rn_SessionID rn \<noteq> ?sid"
    using that a by (simp add: Tasks_def checkSessionID_def InvalidSession_def)
  have c2: "set (tmsg_Tasks (fst (Tasks d r env ws) ! k)) =
             ran (fold view_event (wake_events (take k (Watch ?nid ws))) (view_snapshot ?nid (d_store d)))"
    if s: "rn_SessionID rn = ?sid" and dist: "distinct (map task_ID (task_rows (d_store d)))"
      and k: "k < length (fst (Tasks d r env ws))" for k
  proof -
    let ?evs = "wake_events (take k (Watch ?nid ws))"
    have eq: "Tasks d r env ws = tasks_loop env a ?sid 0 ?m (Watch ?nid ws)"
      using a s by (intro Tasks_loop_eq) simp_all
    from k have "fst (tasks_loop env a ?sid 0 ?m (Watch ?nid ws)) ! k =
        message_of (fold apply_event ?evs ?m)"
      unfolding eq by (rule tasks_loop_nth)
    then have msg: "tmsg_Tasks (fst (Tasks d r env ws) ! k) = map snd (fold apply_event ?evs ?m)"
      by (simp add: eq message_of_def)
    have dm: "distinct (map fst ?m)" and mm: "map_of ?m = view_snapshot ?nid (d_store d)"
      using snapshot_view [OF dist] by simp_all
    from fold_apply_event [OF dm, of ?evs]
    have df: "distinct (map fst (fold apply_event ?evs ?m))"
      and mf: "map_of (fold apply_event ?evs ?m) = fold view_event ?evs (map_of ?m)"
      by simp_all
    have "set (map snd (fold apply_event ?evs ?m)) = ran (map_of (fold apply_event ?evs ?m))"
      using ran_distinct [OF df] by simp
    with msg mf mm show ?thesis by simp
  qed
  have c3: "snd (Tasks d r env ws) = Running \<and>
            length (fst (Tasks d r env ws)) = Suc (length (Watch ?nid ws))"
    if s: "rn_SessionID rn = ?sid" and snd: "\<forall>i. send_at env i = None"
      and nd: "ContextDone \<notin> set (Watch ?nid ws)"
  proof -
    have eq: "Tasks d r env ws = tasks_loop env a ?sid 0 ?m (Watch ?nid ws)"
      using a s by (intro Tasks_loop_eq) simp_all
    from run s a have "\<forall>i. rn_SessionID (d_objects (dispatcher_at env i) a) = ?sid"
      using steps_session [OF re a(1)] by simp
    from tasks_loop_running [OF this snd nd] show ?thesis by (simp add: eq)
  qed
  from c1 c2 c3 show ?thesis by blast
qed

lemma task_dispatcher_eq:
  "task_dispatcher =
     \<lparr>d_addr = [],
      d_nodes = [''n1'' \<mapsto> 0],
      d_objects = (\<lambda>a. zero_registeredNode)(0 := example_node),
      d_next = Suc 0,
      d_store = \<lparr>node_rows = [\<lparr>node_Spec = \<lparr>spec_ID = ''n1''\<rparr>, node_State = NodeStatus_READY\<rparr>],
                 task_rows = example_tasks\<rparr>,
      d_gracePeriodMultiplier = 3,
      d_periodChooser = \<lparr>pc_period = 5000000000, pc_epsilon = 500000000\<rparr>\<rparr>"
  by (simp add: task_dispatcher_def example_dispatcher_eq)

lemma task_dispatcher_reachable: "reachable task_dispatcher"
  unfolding task_dispatcher_def
  by (rule reachable_steps [OF example_dispatcher_reachable steps_store [OF steps_refl]])

lemma task_dispatcher_registered: "registered task_dispatcher ''n1'' = Some example_node"
  by (simp add: task_dispatcher_eq registered_def)

lemma reregistered_dispatcher_eq:
  "reregistered_dispatcher =
     \<lparr>d_addr = [],
      d_nodes = [''n1'' \<mapsto> Suc 0],
      d_objects = (\<lambda>a. zero_registeredNode)(0 := example_node, Suc 0 := reregistered_node),
      d_next = Suc (Suc 0),
      d_store = \<lparr>node_rows = [\<lparr>node_Spec = \<lparr>spec_ID = ''n1''\<rparr>, node_State = NodeStatus_READY\<rparr>],
                 task_rows = example_tasks\<rparr>,
      d_gracePeriodMultiplier = 3,
      d_periodChooser = \<lparr>pc_period = 5000000000, pc_epsilon = 500000000\<rparr>\<rparr>"
  by (simp add: reregistered_dispatcher_def task_dispatcher_eq heartbeat_fired_def nodeDown_def
      example_node_def reregistered_node_def example_request_def Register_def
      registerNode_def Choose_def Int63n_def heartbeat_New_def store_Update_def upsert_node_def
      Nodes_Create_def Nodes_Update_def lookup_node_def node_ID_def Let_def)

lemma reregistered_dispatcher_steps: "steps task_dispatcher reregistered_dispatcher"
  unfolding reregistered_dispatcher_def
  by (rule steps_Register [OF steps_fired [OF steps_refl]])

lemma example_env_run: "\<forall>i. steps task_dispatcher (dispatcher_at example_env i)"
  by (simp add: example_env_def steps_refl reregistered_dispatcher_steps)

theorem UpdateTaskStatus_transaction_witness:
  "registered task_dispatcher ''n1'' = Some example_node \<and>
   UpdateTaskStatus task_dispatcher
     \<lparr>utsr_NodeID = ''n1'', utsr_SessionID = ''s0'',
      utsr_Tasks = [\<lparr>tsu_ID = ''T1'', tsu_Status = 2\<rparr>]\<rparr>
     = (Some InvalidSession, task_dispatcher) \<and>
   fst (UpdateTaskStatus task_dispatcher
     \<lparr>utsr_NodeID = ''n1'', utsr_SessionID = ''s1'',
      utsr_Tasks = [\<lparr>tsu_ID = ''T1'', tsu_Status = 2\<rparr>, \<lparr>tsu_ID = ''T2'', tsu_Status = 3\<rparr>]\<rparr>) = None \<and>
   lookup_task (d_store (snd (UpdateTaskStatus task_dispatcher
     \<lparr>utsr_NodeID = ''n1'', utsr_SessionID = ''s1'',
      utsr_Tasks = [\<lparr>tsu_ID = ''T1'', tsu_Status = 2\<rparr>, \<lparr>tsu_ID = ''T2'', tsu_Status = 3\<rparr>]\<rparr>))) ''T2''
     = Some \<lparr>task_ID = ''T2'', task_NodeID = [], task_Status = 3\<rparr> \<and>
   UpdateTaskStatus task_dispatcher
     \<lparr>utsr_NodeID = ''n1'', utsr_SessionID = ''s1'',
      utsr_Tasks = [\<lparr>tsu_ID = ''T1'', tsu_Status = 2\<rparr>, \<lparr>tsu_ID = ''T7'', tsu_Status = 3\<rparr>]\<rparr>
     = (Some ErrNotExist, task_dispatcher)"
proof -
  let ?bad = "\<lparr>utsr_NodeID = ''n1'', utsr_SessionID = ''s0'',
      utsr_Tasks = [\<lparr>tsu_ID = ''T1'', tsu_Status = 2\<rparr>]\<rparr>"
  let ?good = "\<lparr>utsr_NodeID = ''n1'', utsr_SessionID = ''s1'',
      utsr_Tasks = [\<lparr>tsu_ID = ''T1'', tsu_Status = 2\<rparr>, \<lparr>tsu_ID = ''T2'', tsu_Status = 3\<rparr>]\<rparr>"
  let ?miss = "\<lparr>utsr_NodeID = ''n1'', utsr_SessionID = ''s1'',
      utsr_Tasks = [\<lparr>tsu_ID = ''T1'', tsu_Status = 2\<rparr>, \<lparr>tsu_ID = ''T7'', tsu_Status = 3\<rparr>]\<rparr>"
  have st: "d_store task_dispatcher =
      \<lparr>node_rows = [\<lparr>node_Spec = \<lparr>spec_ID = ''n1''\<rparr>, node_State = NodeStatus_READY\<rparr>],
       task_rows = example_tasks\<rparr>"
    by (simp add: task_dispatcher_eq)
  have nb: "registered task_dispatcher (utsr_NodeID ?bad) = Some example_node"
    and ng: "registered task_dispatcher (utsr_NodeID ?good) = Some example_node"
    and nm: "registered task_dispatcher (utsr_NodeID ?miss) = Some example_node"
    by (simp_all add: task_dispatcher_registered)
  have sb: "rn_SessionID example_node \<noteq> utsr_SessionID ?bad"
    and sg: "rn_SessionID example_node = utsr_SessionID ?good"
    and sm: "rn_SessionID example_node = utsr_SessionID ?miss"
    by (simp_all add: example_node_def)
  have 1: "UpdateTaskStatus task_dispatcher ?bad = (Some InvalidSession, task_dispatcher)"
    by (rule UpdateTaskStatus_transaction [OF nb, THEN conjunct1, THEN mp, OF sb])
  have p: "\<forall>t\<in>set (utsr_Tasks ?good). lookup_task (d_store task_dispatcher) (tsu_ID t) \<noteq> None"
    by (simp add: st lookup_task_def example_tasks_def)
  note g = UpdateTaskStatus_transaction [OF ng, THEN conjunct2, THEN conjunct1, THEN mp,
      OF conjI [OF sg p]]
  have 2: "fst (UpdateTaskStatus task_dispatcher ?good) = None"
    by (rule g [THEN conjunct1])
  have "lookup_task (d_store (snd (UpdateTaskStatus task_dispatcher ?good))) ''T2'' =
      (case status_updates (utsr_Tasks ?good) ''T2'' of
         Some s \<Rightarrow> Some \<lparr>task_ID = ''T2'', task_NodeID = [], task_Status = s\<rparr>
       | None \<Rightarrow> lookup_task (d_store task_dispatcher) ''T2'')"
    by (rule g [THEN conjunct2, THEN conjunct2, THEN conjunct2, THEN spec])
  then have 3: "lookup_task (d_store (snd (UpdateTaskStatus task_dispatcher ?good))) ''T2''
        = Some \<lparr>task_ID = ''T2'', task_NodeID = [], task_Status = 3\<rparr>"
    by simp
  have q: "\<exists>t\<in>set (utsr_Tasks ?miss). lookup_task (d_store task_dispatcher) (tsu_ID t) = None"
    by (simp add: st lookup_task_def example_tasks_def)
  have 4: "UpdateTaskStatus task_dispatcher ?miss = (Some ErrNotExist, task_dispatcher)"
    by (rule UpdateTaskStatus_transaction [OF nm, THEN conjunct2, THEN conjunct2, THEN mp,
      OF conjI [OF sm q]])
  from task_dispatcher_registered 1 2 3 4 show ?thesis by (simp only: simp_thms)
qed

text \<open>
  The run of claim C6 that the code does not end: the stream is opened for \<open>n1\<close> with
  session \<open>s1\<close>; after its first message the node goes down and registers again, now with
  session \<open>s2\<close>. The stream goes on with the three delivered events and is still running.
\<close>

theorem Tasks_stream_witness:
  "reachable task_dispatcher \<and>
   registered task_dispatcher ''n1'' = Some example_node \<and>
   rn_SessionID example_node = ''s1'' \<and>
   map_option rn_SessionID (registered reregistered_dispatcher ''n1'') = Some ''s2'' \<and>
   map tmsg_Tasks (fst (Tasks task_dispatcher \<lparr>treq_NodeID = ''n1'', treq_SessionID = ''s1''\<rparr>
       example_env example_wakes))
     = [[\<lparr>task_ID = ''T1'', task_NodeID = ''n1'', task_Status = 0\<rparr>,
         \<lparr>task_ID = ''T2'', task_NodeID = ''n1'', task_Status = 0\<rparr>],
        [\<lparr>task_ID = ''T1'', task_NodeID = ''n1'', task_Status = 0\<rparr>,
         \<lparr>task_ID = ''T2'', task_NodeID = ''n1'', task_Status = 0\<rparr>,
         \<lparr>task_ID = ''T3'', task_NodeID = ''n1'', task_Status = 0\<rparr>],
        [\<lparr>task_ID = ''T2'', task_NodeID = ''n1'', task_Status = 0\<rparr>,
         \<lparr>task_ID = ''T3'', task_NodeID = ''n1'', task_Status = 0\<rparr>],
        [\<lparr>task_ID = ''T2'', task_NodeID = ''n1'', task_Status = 1\<rparr>,
         \<lparr>task_ID = ''T3'', task_NodeID = ''n1'', task_Status = 0\<rparr>]] \<and>
   snd (Tasks task_dispatcher \<lparr>treq_NodeID = ''n1'', treq_SessionID = ''s1''\<rparr>
       example_env example_wakes) = Running \<and>
   ran (fold view_event
          (wake_events (take 1 (Watch ''n1'' example_wakes)))
          (view_snapshot ''n1'' (d_store task_dispatcher)))
     = {\<lparr>task_ID = ''T1'', task_NodeID = ''n1'', task_Status = 0\<rparr>,
        \<lparr>task_ID = ''T2'', task_NodeID = ''n1'', task_Status = 0\<rparr>,
        \<lparr>task_ID = ''T3'', task_NodeID = ''n1'', task_Status = 0\<rparr>}"
proof -
  let ?r = "\<lparr>treq_NodeID = ''n1'', treq_SessionID = ''s1''\<rparr>"
  let ?T = "Tasks task_dispatcher ?r example_env example_wakes"
  have n: "registered task_dispatcher (treq_NodeID ?r) = Some example_node"
    by (simp add: task_dispatcher_registered)
  have s1: "rn_SessionID example_node = ''s1''" by (simp add: example_node_def)
  have s2: "map_option rn_SessionID (registered reregistered_dispatcher ''n1'') = Some ''s2''"
    by (simp add: reregistered_dispatcher_eq registered_def reregistered_node_def)
  have dist: "distinct (map task_ID (task_rows (d_store task_dispatcher)))"
    by (simp add: task_dispatcher_eq example_tasks_def)
  have w: "Watch ''n1'' example_wakes =
     [Event (EventCreateTask \<lparr>task_ID = ''T3'', task_NodeID = ''n1'', task_Status = 0\<rparr>),
      Event (EventDeleteTask \<lparr>task_ID = ''T1'', task_NodeID = ''n1'', task_Status = 0\<rparr>),
      Event (EventUpdateTask \<lparr>task_ID = ''T2'', task_NodeID = ''n1'', task_Status = 1\<rparr>)]"
    by (simp add: Watch_def example_wakes_def TaskCheckNodeID_def)
  have msgs: "map tmsg_Tasks (fst ?T)
     = [[\<lparr>task_ID = ''T1'', task_NodeID = ''n1'', task_Status = 0\<rparr>,
         \<lparr>task_ID = ''T2'', task_NodeID = ''n1'', task_Status = 0\<rparr>],
        [\<lparr>task_ID = ''T1'', task_NodeID = ''n1'', task_Status = 0\<rparr>,
         \<lparr>task_ID = ''T2'', task_NodeID = ''n1'', task_Status = 0\<rparr>,
         \<lparr>task_ID = ''T3'', task_NodeID = ''n1'', task_Status = 0\<rparr>],
        [\<lparr>task_ID = ''T2'', task_NodeID = ''n1'', task_Status = 0\<rparr>,
         \<lparr>task_ID = ''T3'', task_NodeID = ''n1'', task_Status = 0\<rparr>],
        [\<lparr>task_ID = ''T2'', task_NodeID = ''n1'', task_Status = 1\<rparr>,
         \<lparr>task_ID = ''T3'', task_NodeID = ''n1'', task_Status = 0\<rparr>]]"
    by (simp add: Tasks_def task_dispatcher_eq reregistered_dispatcher_eq checkSessionID_def
        snapshot_def Tasks_Find_ByNodeID_def example_tasks_def example_wakes_def example_env_def
        Watch_def TaskCheckNodeID_def message_of_def example_node_def)
  note T = Tasks_stream [OF task_dispatcher_reachable n example_env_run, of example_wakes]
  have h3: "rn_SessionID example_node = treq_SessionID ?r \<and> (\<forall>i. send_at example_env i = None) \<and>
      ContextDone \<notin> set (Watch (treq_NodeID ?r) example_wakes)"
    by (simp add: w example_node_def example_env_def)
  from T [THEN conjunct2, THEN conjunct2, THEN mp, OF h3]
  have run: "snd ?T = Running" and len: "length (fst ?T) = Suc (length (Watch (treq_NodeID ?r) example_wakes))"
    by simp_all
  from len have k: "Suc 0 < length (fst ?T)" by (simp add: w)
  have h2: "rn_SessionID example_node = treq_SessionID ?r \<and>
      distinct (map task_ID (task_rows (d_store task_dispatcher)))"
    using dist by (simp add: example_node_def)
  have "set (tmsg_Tasks (fst ?T ! Suc 0)) =
          ran (fold view_event (wake_events (take (Suc 0) (Watch (treq_NodeID ?r) example_wakes)))
                 (view_snapshot (treq_NodeID ?r) (d_store task_dispatcher)))"
    by (rule T [THEN conjunct2, THEN conjunct1, THEN mp, OF h2, THEN spec, THEN mp, OF k])
  moreover have "tmsg_Tasks (fst ?T ! Suc 0) = map tmsg_Tasks (fst ?T) ! Suc 0"
    using k by simp
  ultimately have v: "ran (fold view_event (wake_events (take 1 (Watch ''n1'' example_wakes)))
                 (view_snapshot ''n1'' (d_store task_dispatcher)))
     = {\<lparr>task_ID = ''T1'', task_NodeID = ''n1'', task_Status = 0\<rparr>,
        \<lparr>task_ID = ''T2'', task_NodeID = ''n1'', task_Status = 0\<rparr>,
        \<lparr>task_ID = ''T3'', task_NodeID = ''n1'', task_Status = 0\<rparr>}"
    by (simp add: msgs)
  from task_dispatcher_reachable task_dispatcher_registered s1 s2 msgs run v show ?thesis
    by (simp only: simp_thms)
qed

section \<open>Properties of the certificate authority\<close>

lemma ParseValidateAndSignCSR_Inr:
  assumes "ParseValidateAndSignCSR rca csrBytes cn ou org extra now = Inr out"
  shows "\<exists>s req. rca_signer rca = Some s \<and> csrBytes = [CertificateRequestPEM req] \<and>
           out = [CertificatePEM
                 \<lparr>Subject = \<lparr>CommonName = cn, OrganizationalUnit = [ou], Organization = [org],
                              Locality = []\<rparr>,
                  Issuer = Subject (signer_cert s),
                  RawSubjectPublicKeyInfo = csr_PublicKey req,
                  SignedBy = signer_key s,
                  SignatureAlgorithm = signing_algorithm (signer_key s),
                  DNSNames = cn # ou # extra,
                  IsCA = False,
                  NotBefore = now,
                  NotAfter = now + leafExpiry rca\<rparr>]"
  using assms
  by (auto simp: ParseValidateAndSignCSR_def Signer_of_def
      split: option.splits list.splits pem_block.splits)

text \<open>
  Claim C2. For every CSR, whatever CN, OU, O and hosts it carries, the leaf certificate
  returned by \<open>ParseValidateAndSignCSR\<close> has subject CN \<open>cn\<close>, OU \<open>[ou]\<close>, O \<open>[org]\<close> and the SANs
  \<open>cn\<close>, \<open>ou\<close> and the additional DNS names the server passed; it passes \<open>checkSingleCert\<close>
  for these values and the signer's name. A root CA with a signer signs every parseable CSR,
  and changing the names of the CSR does not change the result.
\<close>

theorem ParseValidateAndSignCSR_overwrites:
  "(ParseValidateAndSignCSR rca csrBytes cn ou org extra now = Inr out \<longrightarrow>
      (\<exists>leaf. out = [CertificatePEM leaf] \<and>
         CommonName (Subject leaf) = cn \<and>
         OrganizationalUnit (Subject leaf) = [ou] \<and>
         Organization (Subject leaf) = [org] \<and>
         DNSNames leaf = cn # ou # extra) \<and>
      (\<forall>s. rca_signer rca = Some s \<longrightarrow>
         checkSingleCert out (CommonName (Subject (signer_cert s))) cn ou org extra)) \<and>
   (rca_signer rca \<noteq> None \<longrightarrow>
      (\<exists>signed. ParseValidateAndSignCSR rca [CertificateRequestPEM req] cn ou org extra now
          = Inr signed)) \<and>
   ParseValidateAndSignCSR rca
       [CertificateRequestPEM (req\<lparr>csr_CN := n, csr_Names := ns, csr_Hosts := hs\<rparr>)]
       cn ou org extra now
     = ParseValidateAndSignCSR rca [CertificateRequestPEM req] cn ou org extra now"
proof -
  have a: "(\<exists>leaf. out = [CertificatePEM leaf] \<and>
         CommonName (Subject leaf) = cn \<and>
         OrganizationalUnit (Subject leaf) = [ou] \<and>
         Organization (Subject leaf) = [org] \<and>
         DNSNames leaf = cn # ou # extra) \<and>
      (\<forall>s. rca_signer rca = Some s \<longrightarrow>
         checkSingleCert out (CommonName (Subject (signer_cert s))) cn ou org extra)"
    if "ParseValidateAndSignCSR rca csrBytes cn ou org extra now = Inr out"
    using ParseValidateAndSignCSR_Inr [OF that]
    by (auto simp: checkSingleCert_def list_all_iff)
  have b: "\<exists>signed. ParseValidateAndSignCSR rca [CertificateRequestPEM req] cn ou org extra now
          = Inr signed"
    if "rca_signer rca \<noteq> None"
    using that by (auto simp: ParseValidateAndSignCSR_def Signer_of_def)
  have c: "ParseValidateAndSignCSR rca
       [CertificateRequestPEM (req\<lparr>csr_CN := n, csr_Names := ns, csr_Hosts := hs\<rparr>)]
       cn ou org extra now
     = ParseValidateAndSignCSR rca [CertificateRequestPEM req] cn ou org extra now"
    by (simp add: ParseValidateAndSignCSR_def split: sum.splits)
  from a b c show ?thesis by blast
qed

theorem ParseValidateAndSignCSR_overwrites_witness:
  "rca_signer (CreateRootCA ''rootCN'' 1 test_now) \<noteq> None \<and>
   checkSingleCert
     (case ParseValidateAndSignCSR (CreateRootCA ''rootCN'' 1 test_now)
             [CertificateRequestPEM malicious_request] ''CN'' ''OU'' ''ORG'' [] test_now of
        Inr signedCert \<Rightarrow> signedCert | Inl err \<Rightarrow> [])
     ''rootCN'' ''CN'' ''OU'' ''ORG'' []"
proof -
  let ?rca = "CreateRootCA ''rootCN'' 1 test_now"
  let ?P = "ParseValidateAndSignCSR ?rca [CertificateRequestPEM malicious_request]
              ''CN'' ''OU'' ''ORG'' [] test_now"
  obtain s where s: "rca_signer ?rca = Some s" "CommonName (Subject (signer_cert s)) = ''rootCN''"
    by (simp add: CreateRootCA_def Let_def)
  then have n: "rca_signer ?rca \<noteq> None" by simp
  note T = ParseValidateAndSignCSR_overwrites [of ?rca "[CertificateRequestPEM malicious_request]"
      "''CN''" "''OU''" "''ORG''" "[]" test_now _ malicious_request]
  from T [THEN conjunct2, THEN conjunct1, THEN mp, OF n]
  obtain signed where signed: "?P = Inr signed" by blast
  from T [of signed, THEN conjunct1, THEN mp, OF signed, THEN conjunct2, THEN spec, THEN mp, OF s(1)]
  have "checkSingleCert signed ''rootCN'' ''CN'' ''OU'' ''ORG'' []" by (simp only: s(2))
  with signed n show ?thesis by simp
qed

text \<open>
  Claim C8. For a root CA \<open>A\<close> with a signer, \<open>CrossSignCACertificate\<close> applied to a CA
  certificate (the root certificate of another root CA) yields an intermediate with the
  same raw subject and the same raw subject public key info, with \<open>isCA\<close> true, signed by
  \<open>A\<close>'s signer. It fails with \<open>NotACA\<close> on a certificate that is not a CA, and on input that
  is not a certificate.
\<close>

theorem CrossSignCACertificate_subject_key:
  assumes "rca_signer A = Some s"
  shows "(IsCA c \<longrightarrow>
            (\<exists>i. CrossSignCACertificate A [CertificatePEM c] = Inr [CertificatePEM i] \<and>
               RawSubject i = RawSubject c \<and>
               RawSubjectPublicKeyInfo i = RawSubjectPublicKeyInfo c \<and>
               IsCA i \<and> SignedBy i = signer_key s \<and> Issuer i = Subject (signer_cert s))) \<and>
         (\<not> IsCA c \<longrightarrow> CrossSignCACertificate A [CertificatePEM c] = Inl NotACA) \<and>
         ((\<forall>c'. pem \<noteq> [CertificatePEM c']) \<longrightarrow> CrossSignCACertificate A pem = Inl NotACA)"
proof -
  have a: "\<exists>i. CrossSignCACertificate A [CertificatePEM c] = Inr [CertificatePEM i] \<and>
               RawSubject i = RawSubject c \<and>
               RawSubjectPublicKeyInfo i = RawSubjectPublicKeyInfo c \<and>
               IsCA i \<and> SignedBy i = signer_key s \<and> Issuer i = Subject (signer_cert s)"
    if "IsCA c"
    using that assms by (simp add: CrossSignCACertificate_def Signer_of_def RawSubject_def)
  have b: "CrossSignCACertificate A [CertificatePEM c] = Inl NotACA" if "\<not> IsCA c"
    using that assms by (simp add: CrossSignCACertificate_def Signer_of_def)
  have c: "CrossSignCACertificate A pem = Inl NotACA" if "\<forall>c'. pem \<noteq> [CertificatePEM c']"
    using that assms
    by (auto simp: CrossSignCACertificate_def Signer_of_def split: list.splits pem_block.splits)
  from a b c show ?thesis by blast
qed

lemma ParseCertificatesPEM_map [simp]:
  "ParseCertificatesPEM (map CertificatePEM cs) = Inr cs"
  by (induction cs) simp_all

lemma ParseCertificatesPEM_Inr:
  "ParseCertificatesPEM bs = Inr cs \<Longrightarrow> bs = map CertificatePEM cs"
proof (induction bs arbitrary: cs)
  case Nil
  then show ?case by simp
next
  case (Cons b bs)
  then show ?case by (cases b) (auto split: sum.splits)
qed

lemma not_before_enforced_Some:
  "\<exists>c\<in>set cs. now < NotBefore c \<Longrightarrow> not_before_enforced now cs = Some NotYetValid"
  by (induction cs) auto

lemma not_before_enforced_None:
  "\<forall>c\<in>set cs. NotBefore c \<le> now \<Longrightarrow> not_before_enforced now cs = None"
  by (induction cs) auto

lemma latest_not_before_le:
  "cs \<noteq> [] \<Longrightarrow> (latest_not_before cs \<le> t) = (\<forall>c\<in>set cs. NotBefore c \<le> t)"
  by (induction cs rule: latest_not_before.induct) auto

lemma earliest_not_after_ge:
  "cs \<noteq> [] \<Longrightarrow> (t \<le> earliest_not_after cs) = (\<forall>c\<in>set cs. t \<le> NotAfter c)"
  by (induction cs rule: earliest_not_after.induct) auto

lemma windows_overlap_iff:
  assumes "cs \<noteq> []"
  shows "windows_overlap cs = (\<exists>t. \<forall>c\<in>set cs. NotBefore c \<le> t \<and> t \<le> NotAfter c)"
proof
  assume "windows_overlap cs"
  then have "latest_not_before cs \<le> earliest_not_after cs" by (simp add: windows_overlap_def)
  with assms have "\<forall>c\<in>set cs. NotBefore c \<le> latest_not_before cs \<and>
      latest_not_before cs \<le> NotAfter c"
    using latest_not_before_le [OF assms, of "latest_not_before cs"]
      earliest_not_after_ge [OF assms, of "latest_not_before cs"] by simp
  then show "\<exists>t. \<forall>c\<in>set cs. NotBefore c \<le> t \<and> t \<le> NotAfter c" by blast
next
  assume "\<exists>t. \<forall>c\<in>set cs. NotBefore c \<le> t \<and> t \<le> NotAfter c"
  then obtain t where t: "\<forall>c\<in>set cs. NotBefore c \<le> t \<and> t \<le> NotAfter c" by blast
  then have "latest_not_before cs \<le> t" "t \<le> earliest_not_after cs"
    using latest_not_before_le [OF assms, of t] earliest_not_after_ge [OF assms, of t] by simp_all
  then show "windows_overlap cs" by (simp add: windows_overlap_def)
qed

lemma ValidateCertChain_future:
  assumes "CertificatePEM c \<in> set bundle" and "now < NotBefore c"
  shows "\<exists>e. ValidateCertChain pool bundle allowExpiry now = Inl e"
proof (cases "ParseCertificatesPEM bundle")
  case (Inl e)
  then show ?thesis by (simp add: ValidateCertChain_def)
next
  case (Inr certs)
  then have "bundle = map CertificatePEM certs" by (rule ParseCertificatesPEM_Inr)
  with assms(1) have c: "c \<in> set certs" by auto
  with assms(2) have nb: "not_before_enforced now certs = Some NotYetValid"
    by (intro not_before_enforced_Some) blast
  from c assms(2) have "currently_valid now certs \<noteq> None"
    by (induction certs) auto
  with nb Inr show ?thesis
    by (auto simp: ValidateCertChain_def time_check_def split: option.splits)
qed

text \<open>
  Claim C3. With \<open>allowExpiry = true\<close>, \<open>ValidateCertChain\<close> fails on every bundle that holds a
  certificate whose not-before is in the future (with \<open>NotYetValid\<close> when the bundle is a
  chain); it fails with \<open>NoTimeOverlap\<close> when no root of the pool has a window that overlaps
  the intersection of the windows of all the certificates of the bundle; and a bundle that
  is a chain, has no future not-before, overlaps a root's window, chains to a root and
  keeps to the algorithm policy validates, whether or not its leaf or an intermediate has
  expired.
\<close>

theorem ValidateCertChain_allowExpiry:
  "((\<exists>c. CertificatePEM c \<in> set bundle \<and> now < NotBefore c) \<longrightarrow>
      (\<exists>e. ValidateCertChain pool bundle True now = Inl e)) \<and>
   (forms_chain certs \<and> (\<exists>c\<in>set certs. now < NotBefore c) \<longrightarrow>
      ValidateCertChain pool (map CertificatePEM certs) True now = Inl NotYetValid) \<and>
   (certs \<noteq> [] \<and> forms_chain certs \<and> (\<forall>c\<in>set certs. NotBefore c \<le> now) \<and>
    \<not> (\<exists>root\<in>set pool. windows_overlap (root # certs)) \<longrightarrow>
      ValidateCertChain pool (map CertificatePEM certs) True now = Inl NoTimeOverlap) \<and>
   (certs \<noteq> [] \<and> forms_chain certs \<and> (\<forall>c\<in>set certs. NotBefore c \<le> now) \<and>
    (\<exists>root\<in>set pool. windows_overlap (root # certs)) \<and>
    build_chain pool certs = Some chain \<and> list_all approved certs \<longrightarrow>
      ValidateCertChain pool (map CertificatePEM certs) True now = Inr chain)"
proof -
  have a: "\<exists>e. ValidateCertChain pool bundle True now = Inl e"
    if "\<exists>c. CertificatePEM c \<in> set bundle \<and> now < NotBefore c"
    using that ValidateCertChain_future by blast
  have b: "ValidateCertChain pool (map CertificatePEM certs) True now = Inl NotYetValid"
    if "forms_chain certs" and f: "\<exists>c\<in>set certs. now < NotBefore c"
  proof -
    from f have "certs \<noteq> []" by auto
    with that not_before_enforced_Some [OF f] show ?thesis
      by (simp add: ValidateCertChain_def time_check_def)
  qed
  have c: "ValidateCertChain pool (map CertificatePEM certs) True now = Inl NoTimeOverlap"
    if "certs \<noteq> []" "forms_chain certs" and nb: "\<forall>c\<in>set certs. NotBefore c \<le> now"
      and "\<not> (\<exists>root\<in>set pool. windows_overlap (root # certs))"
    using that not_before_enforced_None [OF nb]
    by (simp add: ValidateCertChain_def time_check_def list_ex_iff)
  have d: "ValidateCertChain pool (map CertificatePEM certs) True now = Inr chain"
    if "certs \<noteq> []" "forms_chain certs" and nb: "\<forall>c\<in>set certs. NotBefore c \<le> now"
      and "\<exists>root\<in>set pool. windows_overlap (root # certs)"
      and "build_chain pool certs = Some chain" "list_all approved certs"
    using that not_before_enforced_None [OF nb]
    by (simp add: ValidateCertChain_def time_check_def list_ex_iff)
  from a b c d show ?thesis by blast
qed

lemma fixture_simps:
  "NotBefore chain_root = test_now - 100 * OneDay" "NotAfter chain_root = test_now + 100 * OneDay"
  "NotBefore chain_intermediate = test_now - 100 * OneDay"
  "NotAfter chain_intermediate = test_now + 100 * OneDay"
  "NotBefore expiredLeaf = test_now - 10 * 3600" "NotAfter expiredLeaf = test_now - 60"
  "NotBefore notYetValidLeaf = test_now + 3600" "NotAfter notYetValidLeaf = test_now + 2 * 3600"
  "NotBefore weirdLeaf = test_now - 3 * OneDay" "NotAfter weirdLeaf = test_now - 2 * OneDay"
  "NotBefore weirdIntermediate = test_now - OneDay" "NotAfter weirdIntermediate = test_now + OneDay"
  by (simp_all add: chain_root_def chain_intermediate_def chain_leaf_def expiredLeaf_def
      notYetValidLeaf_def weirdLeaf_def weirdIntermediate_def ReDateCert_def)

lemma fixture_chains:
  "forms_chain [expiredLeaf, chain_intermediate]"
  "forms_chain [notYetValidLeaf, chain_intermediate]"
  "forms_chain [weirdLeaf, weirdIntermediate]"
  by (simp_all add: issued_by_def chain_intermediate_def chain_leaf_def expiredLeaf_def
      notYetValidLeaf_def weirdLeaf_def weirdIntermediate_def ReDateCert_def)

lemma fixture_build:
  "build_chain [chain_root] [expiredLeaf, chain_intermediate] = Some [expiredLeaf, chain_intermediate]"
  by (simp add: issued_by_def chain_root_def chain_intermediate_def chain_leaf_def expiredLeaf_def
      ReDateCert_def)

lemma fixture_approved: "list_all approved [expiredLeaf, chain_intermediate]"
  by (simp add: approved_def chain_intermediate_def chain_leaf_def expiredLeaf_def ReDateCert_def)

theorem ValidateCertChain_allowExpiry_witness:
  "NotAfter expiredLeaf < test_now \<and>
   ValidateCertChain [chain_root] (map CertificatePEM [expiredLeaf, chain_intermediate]) True test_now
     = Inr [expiredLeaf, chain_intermediate] \<and>
   ValidateCertChain [chain_root] (map CertificatePEM [notYetValidLeaf, chain_intermediate]) True test_now
     = Inl NotYetValid \<and>
   ValidateCertChain [chain_root] (map CertificatePEM [weirdLeaf, weirdIntermediate]) True test_now
     = Inl NoTimeOverlap"
proof -
  have e: "NotAfter expiredLeaf < test_now" by (simp add: fixture_simps)
  have h1: "[expiredLeaf, chain_intermediate] \<noteq> [] \<and> forms_chain [expiredLeaf, chain_intermediate] \<and>
      (\<forall>c\<in>set [expiredLeaf, chain_intermediate]. NotBefore c \<le> test_now) \<and>
      (\<exists>root\<in>set [chain_root]. windows_overlap (root # [expiredLeaf, chain_intermediate])) \<and>
      build_chain [chain_root] [expiredLeaf, chain_intermediate] = Some [expiredLeaf, chain_intermediate] \<and>
      list_all approved [expiredLeaf, chain_intermediate]"
    using fixture_chains fixture_build fixture_approved
    by (simp add: fixture_simps windows_overlap_def OneDay_def)
  have 1: "ValidateCertChain [chain_root] (map CertificatePEM [expiredLeaf, chain_intermediate]) True test_now
     = Inr [expiredLeaf, chain_intermediate]"
    by (rule ValidateCertChain_allowExpiry [THEN conjunct2, THEN conjunct2, THEN conjunct2, THEN mp, OF h1])
  have h2: "forms_chain [notYetValidLeaf, chain_intermediate] \<and>
      (\<exists>c\<in>set [notYetValidLeaf, chain_intermediate]. test_now < NotBefore c)"
    using fixture_chains by (simp add: fixture_simps)
  have 2: "ValidateCertChain [chain_root] (map CertificatePEM [notYetValidLeaf, chain_intermediate]) True test_now
     = Inl NotYetValid"
    by (rule ValidateCertChain_allowExpiry [THEN conjunct2, THEN conjunct1, THEN mp, OF h2])
  have h3: "[weirdLeaf, weirdIntermediate] \<noteq> [] \<and> forms_chain [weirdLeaf, weirdIntermediate] \<and>
      (\<forall>c\<in>set [weirdLeaf, weirdIntermediate]. NotBefore c \<le> test_now) \<and>
      \<not> (\<exists>root\<in>set [chain_root]. windows_overlap (root # [weirdLeaf, weirdIntermediate]))"
    using fixture_chains by (simp add: fixture_simps windows_overlap_def OneDay_def)
  have 3: "ValidateCertChain [chain_root] (map CertificatePEM [weirdLeaf, weirdIntermediate]) True test_now
     = Inl NoTimeOverlap"
    by (rule ValidateCertChain_allowExpiry [THEN conjunct2, THEN conjunct2, THEN conjunct1, THEN mp, OF h3])
  from e 1 2 3 show ?thesis by (simp only: simp_thms)
qed

theorem CrossSignCACertificate_subject_key_witness:
  "rca_signer (CreateRootCA ''rootCN'' 1 test_now) \<noteq> None \<and>
   (\<exists>i. CrossSignCACertificate (CreateRootCA ''rootCN'' 1 test_now)
           (map CertificatePEM (Certs (CreateRootCA ''rootCN2'' 2 test_now)))
         = Inr [CertificatePEM i] \<and>
      CommonName (RawSubject i) = ''rootCN2'' \<and>
      RawSubjectPublicKeyInfo i = ECDSAKey 256 2 \<and> IsCA i) \<and>
   CrossSignCACertificate (CreateRootCA ''rootCN'' 1 test_now) [CertificatePEM chain_leaf]
     = Inl NotACA \<and>
   CrossSignCACertificate (CreateRootCA ''rootCN'' 1 test_now) [PrivateKeyPEM (ECDSAKey 256 1)]
     = Inl NotACA"
proof -
  let ?A = "CreateRootCA ''rootCN'' 1 test_now"
  let ?B = "CreateRootCA ''rootCN2'' 2 test_now"
  obtain s where s: "rca_signer ?A = Some s" by (simp add: CreateRootCA_def Let_def)
  then have n: "rca_signer ?A \<noteq> None" by simp
  obtain c2 where c2: "Certs ?B = [c2]" "IsCA c2" "CommonName (RawSubject c2) = ''rootCN2''"
      "RawSubjectPublicKeyInfo c2 = ECDSAKey 256 2"
    by (simp add: CreateRootCA_def Let_def RawSubject_def)
  note T = CrossSignCACertificate_subject_key [OF s]
  from T [of c2, THEN conjunct1, THEN mp, OF c2(2)] obtain i where
    i: "CrossSignCACertificate ?A [CertificatePEM c2] = Inr [CertificatePEM i]"
      "RawSubject i = RawSubject c2" "RawSubjectPublicKeyInfo i = RawSubjectPublicKeyInfo c2" "IsCA i"
    by blast
  have 1: "\<exists>i. CrossSignCACertificate ?A (map CertificatePEM (Certs ?B)) = Inr [CertificatePEM i] \<and>
      CommonName (RawSubject i) = ''rootCN2'' \<and>
      RawSubjectPublicKeyInfo i = ECDSAKey 256 2 \<and> IsCA i"
    using i c2 by (intro exI [of _ i]) simp
  have l: "\<not> IsCA chain_leaf" by (simp add: chain_leaf_def)
  have 2: "CrossSignCACertificate ?A [CertificatePEM chain_leaf] = Inl NotACA"
    by (rule T [of chain_leaf, THEN conjunct2, THEN conjunct1, THEN mp, OF l])
  have k: "\<forall>c'. [PrivateKeyPEM (ECDSAKey 256 1)] \<noteq> [CertificatePEM c']" by simp
  have 3: "CrossSignCACertificate ?A [PrivateKeyPEM (ECDSAKey 256 1)] = Inl NotACA"
    by (rule T [THEN conjunct2, THEN conjunct2, THEN mp, OF k])
  from n 1 2 3 show ?thesis by (simp only: simp_thms)
qed

subsection \<open>The table of TestValidateCertificateChain\<close>

text \<open>
  The cases of \<open>TestValidateCertificateChain\<close>, with the error each one expects: the model
  of \<open>ValidateCertChain\<close> gives the error the test asks for on every invalid case and
  accepts every valid one.
\<close>

lemmas fixture_defs =
  chain_root_def chain_intermediate_def chain_leaf_def expiredLeaf_def notYetValidLeaf_def
  weirdLeaf_def weirdIntermediate_def expiredIntermediate_def notYetValidIntermediate_def
  unrelated_root_def expiredRoot_def ReDateCert_def test_now_def OneDay_def OneYear_def

lemmas validate_defs =
  ValidateCertChain_def time_check_def issued_by_def windows_overlap_def approved_def

lemma TestValidateCertificateChain_invalids:
  "ValidateCertChain [chain_root] [] False test_now = Inl Empty"
  "ValidateCertChain [chain_root] [Undecodable] False test_now = Inl Malformed"
  "ValidateCertChain [chain_root]
     (map CertificatePEM [chain_leaf, chain_intermediate, chain_leaf]) False test_now = Inl NotAChain"
  "ValidateCertChain [unrelated_root]
     (map CertificatePEM [chain_leaf, chain_intermediate]) False test_now = Inl UnknownAuthority"
  "ValidateCertChain [chain_root]
     (map CertificatePEM [expiredLeaf, chain_intermediate]) False test_now = Inl Expired"
  "ValidateCertChain [chain_root]
     (map CertificatePEM [chain_leaf, expiredIntermediate]) False test_now = Inl Expired"
  "ValidateCertChain [chain_root]
     (map CertificatePEM [notYetValidLeaf, chain_intermediate]) False test_now = Inl NotYetValid"
  "ValidateCertChain [chain_root]
     (map CertificatePEM [chain_leaf, notYetValidIntermediate]) False test_now = Inl NotYetValid"
  "ValidateCertChain [chain_root]
     (map CertificatePEM [notYetValidLeaf, chain_intermediate]) True test_now = Inl NotYetValid"
  "ValidateCertChain [chain_root]
     (map CertificatePEM [chain_leaf, notYetValidIntermediate]) True test_now = Inl NotYetValid"
  "ValidateCertChain [unrelated_root]
     (map CertificatePEM [expiredLeaf, chain_intermediate]) True test_now = Inl UnknownAuthority"
  "ValidateCertChain [chain_root]
     (map CertificatePEM [weirdLeaf, weirdIntermediate]) True test_now = Inl NoTimeOverlap"
  "ValidateCertChain [expiredRoot]
     (map CertificatePEM [expiredLeaf, expiredIntermediate]) True test_now = Inl NoTimeOverlap"
  by (simp_all add: validate_defs fixture_defs)

lemma TestValidateCertificateChain_valids:
  "ValidateCertChain [chain_root]
     (map CertificatePEM [chain_leaf, chain_intermediate, chain_root]) False test_now
     = Inr [chain_leaf, chain_intermediate]"
  "ValidateCertChain [chain_root]
     (map CertificatePEM [chain_leaf, chain_intermediate]) False test_now
     = Inr [chain_leaf, chain_intermediate]"
  "ValidateCertChain [chain_root] (map CertificatePEM [chain_intermediate]) False test_now
     = Inr [chain_intermediate]"
  "ValidateCertChain [chain_root]
     (map CertificatePEM [expiredLeaf, chain_intermediate]) True test_now
     = Inr [expiredLeaf, chain_intermediate]"
  "ValidateCertChain [chain_root]
     (map CertificatePEM [chain_leaf, expiredIntermediate]) True test_now
     = Inr [chain_leaf, expiredIntermediate]"
  "ValidateCertChain [chain_root]
     (map CertificatePEM [expiredLeaf, expiredIntermediate]) True test_now
     = Inr [expiredLeaf, expiredIntermediate]"
  by (simp_all add: validate_defs fixture_defs)

end
